theory Spec2Isabelle
  imports Complex_Main
begin

section \<open>Data model (src/types.ts)\<close>

text \<open>
  A JavaScript \<open>number\<close> is modelled as a rational: every constant of the layout is a
  dyadic rational and every value the generator computes from integer loop counters is
  exact in double precision. \<open>NaN\<close> and the infinities are outside the model. Loop
  counters, node ids, cluster ids and group ids are natural numbers (they are only ever
  produced by counting up from 0). An optional
  field (\<open>clusterId?\<close>, \<open>groupId?\<close>) is an \<open>option\<close>: \<open>None\<close> is \<open>undefined\<close>, and
  \<open>===\<close> on two such fields is equality of options.
\<close>

datatype NodeType = Spine | Leaf | Server

record Vector3 =
  x_v :: rat
  y_v :: rat
  z_v :: rat

record NodeData =
  id_n :: nat
  clusterId :: "nat option"
  type :: NodeType
  position :: Vector3
  groupId :: "nat option"
  label :: string

record NetworkLayout =
  spines :: "NodeData list"
  leafs :: "NodeData list"
  servers :: "NodeData list"

section \<open>Layout constants (src/components/NetworkScene.tsx, lines 8-22)\<close>

definition SPINE_COUNT :: nat where "SPINE_COUNT = 64"
definition LEAF_GROUPS :: nat where "LEAF_GROUPS = 16"
definition LEAFS_PER_GROUP :: nat where "LEAFS_PER_GROUP = 8"
definition SPINE_Y :: rat where "SPINE_Y = 15"
definition LEAF_Y :: rat where "LEAF_Y = - 5"
definition SERVER_Y :: rat where "SERVER_Y = - 25"
definition SPINE_SPACING :: rat where "SPINE_SPACING = 5 / 2"
definition GROUP_SPACING :: rat where "GROUP_SPACING = 10"
definition LEAF_LOCAL_SPACING_Z :: rat where "LEAF_LOCAL_SPACING_Z = 2"
definition CLUSTER_SPACING_Z :: rat where "CLUSTER_SPACING_Z = 60"
definition SERVERS_PER_GROUP_STD :: nat where "SERVERS_PER_GROUP_STD = 64"
definition SERVERS_LAST_GROUP :: nat where "SERVERS_LAST_GROUP = 56"
definition SERVER_SPACING :: rat where "SERVER_SPACING = 1"

section \<open>Template literals\<close>

text \<open>Decimal rendering of a non-negative integer, as a template literal prints it.\<close>

fun showNat :: "nat \<Rightarrow> string" where
  "showNat n =
     (if n < 10 then [char_of (48 + n)]
      else showNat (n div 10) @ [char_of (48 + n mod 10)])"

declare showNat.simps [simp del]

section \<open>Layout generator (NetworkScene, layout useMemo, lines 312-387)\<close>

text \<open>The object literal pushed for spine \<open>i\<close> of cluster \<open>c\<close> (lines 328-334).\<close>

definition spineNode :: "nat \<Rightarrow> nat \<Rightarrow> nat \<Rightarrow> NodeData" where
  "spineNode c i gid =
     (let clusterZOffset = of_nat c * CLUSTER_SPACING_Z * (- 1);
          totalSpineWidth = of_nat (SPINE_COUNT - 1) * SPINE_SPACING;
          spineStartX = - totalSpineWidth / 2
      in \<lparr> id_n = gid,
           clusterId = Some c,
           type = Spine,
           position = \<lparr> x_v = spineStartX + of_nat i * SPINE_SPACING,
                        y_v = SPINE_Y,
                        z_v = clusterZOffset \<rparr>,
           groupId = None,
           label = ''C'' @ showNat (c + 1) @ ''-Spine-'' @ showNat (i + 1) \<rparr>)"

text \<open>The object literal pushed for leaf \<open>l\<close> of group \<open>g\<close> of cluster \<open>c\<close> (lines 347-354).\<close>

definition leafNode :: "nat \<Rightarrow> nat \<Rightarrow> nat \<Rightarrow> nat \<Rightarrow> NodeData" where
  "leafNode c g l gid =
     (let clusterZOffset = of_nat c * CLUSTER_SPACING_Z * (- 1);
          totalGroupWidth = of_nat (LEAF_GROUPS - 1) * GROUP_SPACING;
          groupStartX = - totalGroupWidth / 2;
          groupCenterX = groupStartX + of_nat g * GROUP_SPACING;
          zOffset = (of_nat l - of_nat (LEAFS_PER_GROUP - 1) / 2) * LEAF_LOCAL_SPACING_Z
      in \<lparr> id_n = gid,
           clusterId = Some c,
           type = Leaf,
           position = \<lparr> x_v = groupCenterX, y_v = LEAF_Y, z_v = zOffset + clusterZOffset \<rparr>,
           groupId = Some g,
           label = ''C'' @ showNat (c + 1) @ ''-Leaf-G'' @ showNat (g + 1) @ ''-''
                     @ showNat (l + 1) \<rparr>)"

text \<open>
  The object literal pushed for server \<open>s\<close> of group \<open>g\<close> (lines 375-381); \<open>baseZ\<close> and
  \<open>serverCount\<close> are the values computed outside the inner loop.
\<close>

definition serverNode :: "rat \<Rightarrow> nat \<Rightarrow> nat \<Rightarrow> nat \<Rightarrow> nat \<Rightarrow> NodeData" where
  "serverNode baseZ serverCount g s gid =
     (let totalGroupWidth = of_nat (LEAF_GROUPS - 1) * GROUP_SPACING;
          groupStartX = - totalGroupWidth / 2;
          groupCenterX = groupStartX + of_nat g * GROUP_SPACING;
          totalLength = (of_nat serverCount - 1) * SERVER_SPACING;
          zOffset = (of_nat s * SERVER_SPACING) - (totalLength / 2)
      in \<lparr> id_n = gid,
           clusterId = None,
           type = Server,
           position = \<lparr> x_v = groupCenterX, y_v = SERVER_Y, z_v = baseZ + zOffset \<rparr>,
           groupId = Some g,
           label = ''Server-G'' @ showNat (g + 1) @ ''-'' @ showNat (s + 1) \<rparr>)"

text \<open>
  Each \<open>for\<close> loop is a recursive function on its counter. The mutable arrays and
  \<open>globalIdCounter\<close> are threaded through as a pair (array, counter) or, for the cluster
  loop, a triple (spines, leafs, counter).
\<close>

function spineLoop :: "nat \<Rightarrow> nat \<Rightarrow> NodeData list \<times> nat \<Rightarrow> NodeData list \<times> nat" where
  "spineLoop c i (spinesArr, globalIdCounter) =
     (if i < SPINE_COUNT
      then spineLoop c (i + 1) (spinesArr @ [spineNode c i globalIdCounter], globalIdCounter + 1)
      else (spinesArr, globalIdCounter))"
  by pat_completeness auto
termination
  by (relation "measure (\<lambda>(c, i, st). SPINE_COUNT - i)") auto

function leafLoop :: "nat \<Rightarrow> nat \<Rightarrow> nat \<Rightarrow> NodeData list \<times> nat \<Rightarrow> NodeData list \<times> nat" where
  "leafLoop c g l (leafsArr, globalIdCounter) =
     (if l < LEAFS_PER_GROUP
      then leafLoop c g (l + 1) (leafsArr @ [leafNode c g l globalIdCounter], globalIdCounter + 1)
      else (leafsArr, globalIdCounter))"
  by pat_completeness auto
termination
  by (relation "measure (\<lambda>(c, g, l, st). LEAFS_PER_GROUP - l)") auto

function groupLoop :: "nat \<Rightarrow> nat \<Rightarrow> NodeData list \<times> nat \<Rightarrow> NodeData list \<times> nat" where
  "groupLoop c g st =
     (if g < LEAF_GROUPS then groupLoop c (g + 1) (leafLoop c g 0 st) else st)"
  by pat_completeness auto
termination
  by (relation "measure (\<lambda>(c, g, st). LEAF_GROUPS - g)") auto

text \<open>
  The cluster loop compares the integer counter with \<open>clusterCount\<close>, which is any
  number: \<open>for (let c = 0; c < clusterCount; c++)\<close>.
\<close>

function clusterLoop ::
  "rat \<Rightarrow> nat \<Rightarrow> NodeData list \<times> NodeData list \<times> nat \<Rightarrow> NodeData list \<times> NodeData list \<times> nat"
where
  "clusterLoop clusterCount c (spinesArr, leafsArr, globalIdCounter) =
     (if of_nat c < clusterCount
      then (case spineLoop c 0 (spinesArr, globalIdCounter) of
              (spinesArr', counter') \<Rightarrow>
                (case groupLoop c 0 (leafsArr, counter') of
                   (leafsArr', counter'') \<Rightarrow>
                     clusterLoop clusterCount (c + 1) (spinesArr', leafsArr', counter'')))
      else (spinesArr, leafsArr, globalIdCounter))"
  by pat_completeness auto
termination
proof (relation "measure (\<lambda>(clusterCount, c, st). nat \<lceil>clusterCount\<rceil> - c)")
  show "wf (measure (\<lambda>(clusterCount, c, st). nat \<lceil>clusterCount\<rceil> - c))"
    by simp
next
  fix clusterCount :: rat and c :: nat
    and spinesArr leafsArr :: "NodeData list" and globalIdCounter :: nat
    and x :: "NodeData list \<times> nat" and xa :: "NodeData list" and y :: nat
    and xb :: "NodeData list \<times> nat" and xc :: "NodeData list" and ya :: nat
  assume lt: "of_nat c < clusterCount"
  have "of_int (int c) < clusterCount"
    using lt by simp
  also have "clusterCount \<le> of_int \<lceil>clusterCount\<rceil>"
    by (rule le_of_int_ceiling)
  finally have "int c < \<lceil>clusterCount\<rceil>"
    by (simp only: of_int_less_iff)
  then have "c < nat \<lceil>clusterCount\<rceil>"
    by linarith
  then show "((clusterCount, c + 1, xa, xc, ya), (clusterCount, c, spinesArr, leafsArr, globalIdCounter))
      \<in> measure (\<lambda>(clusterCount, c, st). nat \<lceil>clusterCount\<rceil> - c)"
    by simp
qed

function serverLoop ::
  "rat \<Rightarrow> nat \<Rightarrow> nat \<Rightarrow> nat \<Rightarrow> NodeData list \<times> nat \<Rightarrow> NodeData list \<times> nat" where
  "serverLoop baseZ serverCount g s (serversArr, globalIdCounter) =
     (if s < serverCount
      then serverLoop baseZ serverCount g (s + 1)
             (serversArr @ [serverNode baseZ serverCount g s globalIdCounter], globalIdCounter + 1)
      else (serversArr, globalIdCounter))"
  by pat_completeness auto
termination
  by (relation "measure (\<lambda>(baseZ, serverCount, g, s, st). serverCount - s)") auto

function serverGroupLoop :: "rat \<Rightarrow> nat \<Rightarrow> NodeData list \<times> nat \<Rightarrow> NodeData list \<times> nat" where
  "serverGroupLoop baseZ g st =
     (if g < LEAF_GROUPS
      then (let serverCount = (if g = 15 then SERVERS_LAST_GROUP else SERVERS_PER_GROUP_STD)
            in serverGroupLoop baseZ (g + 1) (serverLoop baseZ serverCount g 0 st))
      else st)"
  by pat_completeness auto
termination
  by (relation "measure (\<lambda>(baseZ, g, st). LEAF_GROUPS - g)") auto

declare spineLoop.simps [simp del] leafLoop.simps [simp del] groupLoop.simps [simp del]
  clusterLoop.simps [simp del] serverLoop.simps [simp del] serverGroupLoop.simps [simp del]

text \<open>
  The body of the \<open>useMemo\<close>: the topology for a cluster count and the server-mode flag.
\<close>

definition layout :: "rat \<Rightarrow> bool \<Rightarrow> NetworkLayout" where
  "layout clusterCount isServerMode =
     (case clusterLoop clusterCount 0 ([], [], 0) of
        (spinesArr, leafsArr, globalIdCounter) \<Rightarrow>
          (let serversArr =
                 (if isServerMode
                  then (let baseZ = (if clusterCount > 1
                                     then (0 + (CLUSTER_SPACING_Z * (- 1))) / 2 else 0)
                        in fst (serverGroupLoop baseZ 0 ([], globalIdCounter)))
                  else [])
           in \<lparr> spines = spinesArr, leafs = leafsArr, servers = serversArr \<rparr>))"

section \<open>Line buffers\<close>

text \<open>
  A geometry is the flat \<open>points: number[]\<close> array handed to the position attribute:
  three numbers per vertex, two vertices per line segment.
\<close>

definition segmentCount :: "rat list \<Rightarrow> nat" where
  "segmentCount points = length points div 6"

section \<open>Full-mesh builder (Connections, staticGeo, lines 140-169)\<close>

definition staticGeo :: "NetworkLayout \<Rightarrow> rat list" where
  "staticGeo lay =
     (let points = [];
          points =
            foldl (\<lambda>points spine.
              foldl (\<lambda>points leaf.
                if clusterId spine = clusterId leaf
                then (points @ [x_v (position spine), y_v (position spine), z_v (position spine)])
                       @ [x_v (position leaf), y_v (position leaf), z_v (position leaf)]
                else points) points (leafs lay)) points (spines lay);
          points =
            (if length (servers lay) > 0
             then foldl (\<lambda>points server.
                    foldl (\<lambda>points leaf.
                      if groupId leaf = groupId server
                      then (points @ [x_v (position server), y_v (position server),
                                      z_v (position server)])
                             @ [x_v (position leaf), y_v (position leaf), z_v (position leaf)]
                      else points) points (leafs lay)) points (servers lay)
             else points)
      in points)"

section \<open>Highlight builder (Connections, activeGeo, lines 172-202)\<close>

definition addLine :: "rat list \<Rightarrow> NodeData \<Rightarrow> NodeData \<Rightarrow> rat list" where
  "addLine points n1 n2 =
     (points @ [x_v (position n1), y_v (position n1), z_v (position n1)])
       @ [x_v (position n2), y_v (position n2), z_v (position n2)]"

text \<open>
  \<open>hoveredNode: NodeData | null\<close> is an option; the result \<open>None\<close> is the \<open>null\<close> returned
  for no focus, for which no line object is rendered at all (line 212).
\<close>

definition activeGeo :: "NetworkLayout \<Rightarrow> NodeData option \<Rightarrow> rat list option" where
  "activeGeo lay hoveredNode =
     (case hoveredNode of
        None \<Rightarrow> None
      | Some hovered \<Rightarrow>
          Some
            (if type hovered = Spine then
               foldl (\<lambda>points leaf.
                 if clusterId leaf = clusterId hovered then addLine points hovered leaf
                 else points) [] (leafs lay)
             else if type hovered = Leaf then
               (let points =
                      foldl (\<lambda>points spine.
                        if clusterId spine = clusterId hovered then addLine points hovered spine
                        else points) [] (spines lay)
                in foldl (\<lambda>points server.
                     if groupId server = groupId hovered then addLine points hovered server
                     else points) points (servers lay))
             else if type hovered = Server then
               foldl (\<lambda>points leaf.
                 if groupId leaf = groupId hovered then addLine points hovered leaf
                 else points) [] (leafs lay)
             else []))"

text \<open>The numbers actually drawn: nothing for \<open>null\<close>.\<close>

definition drawn :: "rat list option \<Rightarrow> rat list" where
  "drawn geo = (case geo of None \<Rightarrow> [] | Some points \<Rightarrow> points)"

section \<open>Escape-route builder (EscapeConnections, lines 233-273)\<close>

text \<open>
  Modelled from the spec: \<open>THREE.QuadraticBezierCurve3\<close> and its \<open>getPoints\<close> belong to
  the three.js library, which is not under src/. The specification describes a smooth
  curve with a single control point, sampled into a fixed number of straight
  sub-segments. The curve is the quadratic Bezier curve from the start point to the end
  point with that control point; \<open>getPoints(divisions)\<close> samples it at the parameters
  \<open>d / divisions\<close> for \<open>d = 0, ..., divisions\<close>, that is \<open>divisions + 1\<close> points joined by
  \<open>divisions\<close> straight sub-segments. Coordinates are computed in exact arithmetic; the
  claims below only count points.
\<close>

definition QuadraticBezier :: "rat \<Rightarrow> rat \<Rightarrow> rat \<Rightarrow> rat \<Rightarrow> rat" where
  "QuadraticBezier t p0 p1 p2 = (1 - t) * (1 - t) * p0 + 2 * (1 - t) * t * p1 + t * t * p2"

definition getPoint :: "Vector3 \<Rightarrow> Vector3 \<Rightarrow> Vector3 \<Rightarrow> rat \<Rightarrow> Vector3" where
  "getPoint v0 v1 v2 t =
     \<lparr> x_v = QuadraticBezier t (x_v v0) (x_v v1) (x_v v2),
       y_v = QuadraticBezier t (y_v v0) (y_v v1) (y_v v2),
       z_v = QuadraticBezier t (z_v v0) (z_v v1) (z_v v2) \<rparr>"

definition getPoints :: "Vector3 \<Rightarrow> Vector3 \<Rightarrow> Vector3 \<Rightarrow> nat \<Rightarrow> Vector3 list" where
  "getPoints v0 v1 v2 divisions =
     map (\<lambda>d. getPoint v0 v1 v2 (of_nat d / of_nat divisions)) [0 ..< divisions + 1]"

text \<open>
  Reading an array beyond its end gives \<open>undefined\<close> (\<open>None\<close>); reading a property of
  \<open>undefined\<close> throws a \<open>TypeError\<close>. Both are written out, so that the guard of line 248
  is what keeps the builder from failing.
\<close>

datatype error = TypeError

definition nth_js :: "'a list \<Rightarrow> nat \<Rightarrow> 'a option" where
  "nth_js xs i = (if i < length xs then Some (xs ! i) else None)"

definition positionOf :: "NodeData option \<Rightarrow> error + Vector3" where
  "positionOf n = (case n of None \<Rightarrow> Inl TypeError | Some node \<Rightarrow> Inr (position node))"

definition coords :: "Vector3 option \<Rightarrow> error + rat list" where
  "coords p = (case p of None \<Rightarrow> Inl TypeError | Some v \<Rightarrow> Inr [x_v v, y_v v, z_v v])"

text \<open>
  Lines 259-262. In the source the bound is \<open>curvePoints.length - 1\<close>, which is \<open>-1\<close> for
  an empty array; truncating subtraction gives \<open>0\<close>, and either way no \<open>k \<ge> 0\<close> is below it.
\<close>

function curveLoop :: "Vector3 list \<Rightarrow> nat \<Rightarrow> rat list \<Rightarrow> error + rat list" where
  "curveLoop curvePoints k points =
     (if k < length curvePoints - 1
      then (case coords (nth_js curvePoints k) of
              Inl e \<Rightarrow> Inl e
            | Inr a \<Rightarrow>
                (case coords (nth_js curvePoints (k + 1)) of
                   Inl e \<Rightarrow> Inl e
                 | Inr b \<Rightarrow> curveLoop curvePoints (k + 1) ((points @ a) @ b)))
      else Inr points)"
  by pat_completeness auto
termination
  by (relation "measure (\<lambda>(curvePoints, k, points). length curvePoints - 1 - k)") auto

text \<open>Lines 249-262: the body of the guarded branch for one pair of leafs.\<close>

definition curveBetween :: "Vector3 \<Rightarrow> Vector3 \<Rightarrow> Vector3 list" where
  "curveBetween start end' =
     (let midX = (x_v start + x_v end') / 2;
          midY = (y_v start + y_v end') / 2;
          midZ = (z_v start + z_v end') / 2;
          curveDepth = 25;
          controlPoint = \<lparr> x_v = midX, y_v = midY - curveDepth, z_v = midZ \<rparr>
      in getPoints start controlPoint end' 20)"

function pairLoop ::
  "NetworkLayout \<Rightarrow> nat \<Rightarrow> nat \<Rightarrow> nat \<Rightarrow> rat list \<Rightarrow> error + rat list" where
  "pairLoop lay startIdxA startIdxB i points =
     (if i < LEAFS_PER_GROUP
      then (let leafA = nth_js (leafs lay) (startIdxA + i);
                leafB = nth_js (leafs lay) (startIdxB + i)
            in if leafA \<noteq> None \<and> leafB \<noteq> None
               then (case positionOf leafA of
                       Inl e \<Rightarrow> Inl e
                     | Inr start \<Rightarrow>
                         (case positionOf leafB of
                            Inl e \<Rightarrow> Inl e
                          | Inr end' \<Rightarrow>
                              (case curveLoop (curveBetween start end') 0 points of
                                 Inl e \<Rightarrow> Inl e
                               | Inr points' \<Rightarrow>
                                   pairLoop lay startIdxA startIdxB (i + 1) points')))
               else pairLoop lay startIdxA startIdxB (i + 1) points)
      else Inr points)"
  by pat_completeness auto
termination
  by (relation "measure (\<lambda>(lay, startIdxA, startIdxB, i, points). LEAFS_PER_GROUP - i)") auto

function escapeLoop :: "NetworkLayout \<Rightarrow> rat \<Rightarrow> nat \<Rightarrow> rat list \<Rightarrow> error + rat list" where
  "escapeLoop lay clusterCount c points =
     (if of_nat c < clusterCount - 1
      then (let LEAFS_PER_CLUSTER = LEAF_GROUPS * LEAFS_PER_GROUP;
                LAST_GROUP_OFFSET = (LEAF_GROUPS - 1) * LEAFS_PER_GROUP;
                startIdxA = (c * LEAFS_PER_CLUSTER) + LAST_GROUP_OFFSET;
                startIdxB = ((c + 1) * LEAFS_PER_CLUSTER) + LAST_GROUP_OFFSET
            in case pairLoop lay startIdxA startIdxB 0 points of
                 Inl e \<Rightarrow> Inl e
               | Inr points' \<Rightarrow> escapeLoop lay clusterCount (c + 1) points')
      else Inr points)"
  by pat_completeness auto
termination
proof (relation "measure (\<lambda>(lay, clusterCount, c, points). nat \<lceil>clusterCount - 1\<rceil> - c)")
  show "wf (measure (\<lambda>(lay, clusterCount, c, points). nat \<lceil>clusterCount - 1\<rceil> - c))"
    by simp
next
  fix lay :: NetworkLayout and clusterCount :: rat and c :: nat and points :: "rat list"
    and x xa xb xc :: nat and x2 :: "rat list"
  assume lt: "of_nat c < clusterCount - 1"
  have "of_int (int c) < clusterCount - 1"
    using lt by simp
  also have "clusterCount - 1 \<le> of_int \<lceil>clusterCount - 1\<rceil>"
    by (rule le_of_int_ceiling)
  finally have "int c < \<lceil>clusterCount - 1\<rceil>"
    by (simp only: of_int_less_iff)
  then have "c < nat \<lceil>clusterCount - 1\<rceil>"
    by linarith
  then show "((lay, clusterCount, c + 1, x2), (lay, clusterCount, c, points))
      \<in> measure (\<lambda>(lay, clusterCount, c, points). nat \<lceil>clusterCount - 1\<rceil> - c)"
    by simp
qed

declare curveLoop.simps [simp del] pairLoop.simps [simp del] escapeLoop.simps [simp del]

text \<open>
  The \<open>useMemo\<close> body: \<open>null\<close> (\<open>None\<close>) when the mode is off, when there are fewer than two
  clusters, or when no point was produced.
\<close>

definition escapeGeometry :: "NetworkLayout \<Rightarrow> bool \<Rightarrow> rat \<Rightarrow> error + rat list option" where
  "escapeGeometry lay active clusterCount =
     (if \<not> active \<or> clusterCount < 2 then Inr None
      else (case escapeLoop lay clusterCount 0 [] of
              Inl e \<Rightarrow> Inl e
            | Inr points \<Rightarrow> if length points = 0 then Inr None else Inr (Some points)))"

section \<open>Camera target (NetworkScene, OrbitControls, line 488)\<close>

text \<open>
  The point the camera orbits: \<open>target={[0, 0, -30 * (clusterCount - 1)]}\<close>, the middle of
  the row of clusters.
\<close>

definition orbitTarget :: "rat \<Rightarrow> Vector3" where
  "orbitTarget clusterCount = \<lparr> x_v = 0, y_v = 0, z_v = - 30 * (clusterCount - 1) \<rparr>"

section \<open>Closed forms used in the proofs\<close>

text \<open>The number of iterations of \<open>for (let c = 0; c < clusterCount; c++)\<close>.\<close>

definition clusterTotal :: "rat \<Rightarrow> nat" where
  "clusterTotal clusterCount = nat \<lceil>clusterCount\<rceil>"

definition NODES_PER_CLUSTER :: nat where
  "NODES_PER_CLUSTER = SPINE_COUNT + LEAF_GROUPS * LEAFS_PER_GROUP"

definition clusterSpines :: "nat \<Rightarrow> nat \<Rightarrow> NodeData list" where
  "clusterSpines c gid = map (\<lambda>i. spineNode c i (gid + i)) [0 ..< SPINE_COUNT]"

definition groupLeafs :: "nat \<Rightarrow> nat \<Rightarrow> nat \<Rightarrow> NodeData list" where
  "groupLeafs c g gid = map (\<lambda>l. leafNode c g l (gid + l)) [0 ..< LEAFS_PER_GROUP]"

definition clusterLeafs :: "nat \<Rightarrow> nat \<Rightarrow> NodeData list" where
  "clusterLeafs c gid =
     concat (map (\<lambda>g. groupLeafs c g (gid + g * LEAFS_PER_GROUP)) [0 ..< LEAF_GROUPS])"

definition genSpines :: "nat \<Rightarrow> NodeData list" where
  "genSpines n = concat (map (\<lambda>c. clusterSpines c (c * NODES_PER_CLUSTER)) [0 ..< n])"

definition genLeafs :: "nat \<Rightarrow> NodeData list" where
  "genLeafs n =
     concat (map (\<lambda>c. clusterLeafs c (c * NODES_PER_CLUSTER + SPINE_COUNT)) [0 ..< n])"

definition serverCountOf :: "nat \<Rightarrow> nat" where
  "serverCountOf g = (if g = 15 then SERVERS_LAST_GROUP else SERVERS_PER_GROUP_STD)"

definition groupServers :: "rat \<Rightarrow> nat \<Rightarrow> nat \<Rightarrow> NodeData list" where
  "groupServers baseZ g gid =
     map (\<lambda>s. serverNode baseZ (serverCountOf g) g s (gid + s)) [0 ..< serverCountOf g]"

definition genServers :: "rat \<Rightarrow> nat \<Rightarrow> NodeData list" where
  "genServers baseZ gid =
     concat (map (\<lambda>g. groupServers baseZ g (gid + g * SERVERS_PER_GROUP_STD)) [0 ..< LEAF_GROUPS])"

definition baseZOf :: "rat \<Rightarrow> rat" where
  "baseZOf clusterCount = (if clusterCount > 1 then (0 + (CLUSTER_SPACING_Z * (- 1))) / 2 else 0)"

section \<open>Notions used to state the claims\<close>

text \<open>The depth coordinates of the servers of group \<open>g\<close>, in generation order.\<close>

definition groupDepths :: "NetworkLayout \<Rightarrow> nat \<Rightarrow> rat list" where
  "groupDepths lay g = map (\<lambda>s. z_v (position s)) (filter (\<lambda>s. groupId s = Some g) (servers lay))"

text \<open>
  A sequence of depths is spread symmetrically around \<open>base\<close> when the \<open>k\<close>-th value from
  the front and the \<open>k\<close>-th value from the back always have \<open>base\<close> as their midpoint.
\<close>

definition symmetricAround :: "rat \<Rightarrow> rat list \<Rightarrow> bool" where
  "symmetricAround base zs =
     list_all (\<lambda>k. zs ! k + zs ! (length zs - 1 - k) = 2 * base) [0 ..< length zs]"

text \<open>
  The base depth in the words of the specification: the midpoint between depth 0 and the
  last cluster's offset \<open>-(clusterCount - 1) * CLUSTER_SPACING\<close> when \<open>clusterCount > 1\<close>,
  else 0.
\<close>

definition spec_baseZ :: "rat \<Rightarrow> rat" where
  "spec_baseZ clusterCount =
     (if clusterCount > 1 then (0 + (- (clusterCount - 1) * CLUSTER_SPACING_Z)) / 2 else 0)"

text \<open>The six numbers of one line segment from node \<open>n1\<close> to node \<open>n2\<close>.\<close>

definition linePoints :: "NodeData \<Rightarrow> NodeData \<Rightarrow> rat list" where
  "linePoints n1 n2 =
     [x_v (position n1), y_v (position n1), z_v (position n1),
      x_v (position n2), y_v (position n2), z_v (position n2)]"

text \<open>The node pairs of the full mesh, in the iteration order of the builder.\<close>

definition meshPairs :: "NetworkLayout \<Rightarrow> (NodeData \<times> NodeData) list" where
  "meshPairs lay =
     concat (map (\<lambda>spine. map (Pair spine)
                    (filter (\<lambda>leaf. clusterId spine = clusterId leaf) (leafs lay))) (spines lay))
     @ concat (map (\<lambda>server. map (Pair server)
                    (filter (\<lambda>leaf. groupId leaf = groupId server) (leafs lay))) (servers lay))"

text \<open>
  A focused node is present in a topology when some node of the topology has its id and
  its type (the id-and-type match of the specification).
\<close>

definition present :: "NetworkLayout \<Rightarrow> NodeData \<Rightarrow> bool" where
  "present lay n =
     list_ex (\<lambda>m. id_n m = id_n n \<and> type m = type n) (spines lay @ leafs lay @ servers lay)"

text \<open>The numbers pushed for the sub-segments joining consecutive sample points.\<close>

definition xyz :: "Vector3 \<Rightarrow> rat list" where
  "xyz v = [x_v v, y_v v, z_v v]"

definition curveSegments :: "Vector3 list \<Rightarrow> rat list" where
  "curveSegments curvePoints =
     concat (map (\<lambda>k. xyz (curvePoints ! k) @ xyz (curvePoints ! (k + 1)))
               [0 ..< length curvePoints - 1])"

text \<open>
  What one pair of leaf indices contributes to the escape geometry: the sampled curve when
  both indices are inside the leaf array, nothing otherwise.
\<close>

definition pairSegments :: "NetworkLayout \<Rightarrow> nat \<Rightarrow> nat \<Rightarrow> rat list" where
  "pairSegments lay idxA idxB =
     (if idxA < length (leafs lay) \<and> idxB < length (leafs lay)
      then curveSegments (curveBetween (position (leafs lay ! idxA)) (position (leafs lay ! idxB)))
      else [])"

definition escapePoints :: "NetworkLayout \<Rightarrow> rat \<Rightarrow> rat list" where
  "escapePoints lay clusterCount =
     concat (map (\<lambda>c. concat (map (\<lambda>i. pairSegments lay (c * 128 + 120 + i) ((c + 1) * 128 + 120 + i))
                                [0 ..< 8]))
               [0 ..< nat \<lceil>clusterCount - 1\<rceil>])"

section \<open>Closed forms of the loops\<close>

lemma spineLoop_closed:
  "spineLoop c i (sp, gid) =
     (sp @ map (\<lambda>k. spineNode c k (gid + (k - i))) [i ..< SPINE_COUNT], gid + (SPINE_COUNT - i))"
proof (induction c i "(sp, gid)" arbitrary: sp gid rule: spineLoop.induct)
  case (1 c i sp gid)
  show ?case
  proof (cases "i < SPINE_COUNT")
    case True
    have m: "map (\<lambda>k. spineNode c k (gid + 1 + (k - (i + 1)))) [i + 1 ..< SPINE_COUNT]
           = map (\<lambda>k. spineNode c k (gid + (k - i))) [i + 1 ..< SPINE_COUNT]"
    proof (rule map_cong [OF refl])
      fix k assume "k \<in> set [i + 1 ..< SPINE_COUNT]"
      then have "gid + 1 + (k - (i + 1)) = gid + (k - i)" by auto
      then show "spineNode c k (gid + 1 + (k - (i + 1))) = spineNode c k (gid + (k - i))" by (rule arg_cong)
    qed
    show ?thesis
      using True "1.hyps" [OF True] m by (subst spineLoop.simps) (simp add: upt_conv_Cons)
  next
    case False
    then show ?thesis by (subst spineLoop.simps) simp
  qed
qed

lemma leafLoop_closed:
  "leafLoop c g l (lf, gid) =
     (lf @ map (\<lambda>k. leafNode c g k (gid + (k - l))) [l ..< LEAFS_PER_GROUP],
      gid + (LEAFS_PER_GROUP - l))"
proof (induction c g l "(lf, gid)" arbitrary: lf gid rule: leafLoop.induct)
  case (1 c g l lf gid)
  show ?case
  proof (cases "l < LEAFS_PER_GROUP")
    case True
    have m: "map (\<lambda>k. leafNode c g k (gid + 1 + (k - (l + 1)))) [l + 1 ..< LEAFS_PER_GROUP]
           = map (\<lambda>k. leafNode c g k (gid + (k - l))) [l + 1 ..< LEAFS_PER_GROUP]"
    proof (rule map_cong [OF refl])
      fix k assume "k \<in> set [l + 1 ..< LEAFS_PER_GROUP]"
      then have "gid + 1 + (k - (l + 1)) = gid + (k - l)" by auto
      then show "leafNode c g k (gid + 1 + (k - (l + 1))) = leafNode c g k (gid + (k - l))" by (rule arg_cong)
    qed
    show ?thesis
      using True "1.hyps" [OF True] m by (subst leafLoop.simps) (simp add: upt_conv_Cons)
  next
    case False
    then show ?thesis by (subst leafLoop.simps) simp
  qed
qed

lemma serverLoop_closed:
  "serverLoop bz n g s (sv, gid) =
     (sv @ map (\<lambda>k. serverNode bz n g k (gid + (k - s))) [s ..< n], gid + (n - s))"
proof (induction bz n g s "(sv, gid)" arbitrary: sv gid rule: serverLoop.induct)
  case (1 bz n g s sv gid)
  show ?case
  proof (cases "s < n")
    case True
    have m: "map (\<lambda>k. serverNode bz n g k (gid + 1 + (k - (s + 1)))) [s + 1 ..< n]
           = map (\<lambda>k. serverNode bz n g k (gid + (k - s))) [s + 1 ..< n]"
    proof (rule map_cong [OF refl])
      fix k assume "k \<in> set [s + 1 ..< n]"
      then have "gid + 1 + (k - (s + 1)) = gid + (k - s)" by auto
      then show "serverNode bz n g k (gid + 1 + (k - (s + 1))) = serverNode bz n g k (gid + (k - s))" by (rule arg_cong)
    qed
    show ?thesis
      using True "1.hyps" [OF True] m by (subst serverLoop.simps) (simp add: upt_conv_Cons)
  next
    case False
    then show ?thesis by (subst serverLoop.simps) simp
  qed
qed


lemma of_nat_less_clusterTotal: "(of_nat c < clusterCount) = (c < clusterTotal clusterCount)"
proof -
  have "(c < nat \<lceil>clusterCount\<rceil>) = (int c < \<lceil>clusterCount\<rceil>)"
    by (rule zless_nat_eq_int_zless)
  also have "\<dots> = (of_int (int c) < clusterCount)"
    by (rule less_ceiling_iff)
  finally show ?thesis
    by (simp add: clusterTotal_def)
qed


lemma groupLoop_closed_aux:
  "groupLoop c g st =
     (fst st @ concat (map (\<lambda>g'. groupLeafs c g' (snd st + (g' - g) * LEAFS_PER_GROUP))
                         [g ..< LEAF_GROUPS]),
      snd st + (LEAF_GROUPS - g) * LEAFS_PER_GROUP)"
proof (induction c g st rule: groupLoop.induct)
  case (1 c g st)
  obtain lf gid where st: "st = (lf, gid)" by (cases st)
  show ?case
  proof (cases "g < LEAF_GROUPS")
    case True
    have step: "leafLoop c g 0 st = (lf @ groupLeafs c g gid, gid + LEAFS_PER_GROUP)"
      by (simp add: st leafLoop_closed groupLeafs_def)
    have m: "map (\<lambda>g'. groupLeafs c g' (gid + LEAFS_PER_GROUP + (g' - (g + 1)) * LEAFS_PER_GROUP))
               [g + 1 ..< LEAF_GROUPS]
           = map (\<lambda>g'. groupLeafs c g' (gid + (g' - g) * LEAFS_PER_GROUP)) [g + 1 ..< LEAF_GROUPS]"
    proof (rule map_cong [OF refl])
      fix k assume "k \<in> set [g + 1 ..< LEAF_GROUPS]"
      then have "k - g = Suc (k - (g + 1))" by auto
      then have "gid + LEAFS_PER_GROUP + (k - (g + 1)) * LEAFS_PER_GROUP
          = gid + (k - g) * LEAFS_PER_GROUP" by simp
      then show "groupLeafs c k (gid + LEAFS_PER_GROUP + (k - (g + 1)) * LEAFS_PER_GROUP)
          = groupLeafs c k (gid + (k - g) * LEAFS_PER_GROUP)" by (rule arg_cong)
    qed
    have a: "gid + LEAFS_PER_GROUP + (LEAF_GROUPS - (g + 1)) * LEAFS_PER_GROUP
        = gid + (LEAF_GROUPS - g) * LEAFS_PER_GROUP"
    proof -
      from True have "LEAF_GROUPS - g = Suc (LEAF_GROUPS - (g + 1))" by auto
      then show ?thesis by simp
    qed
    have "groupLoop c g st = groupLoop c (g + 1) (leafLoop c g 0 st)"
      by (subst groupLoop.simps) (simp only: True if_True)
    also have "\<dots> = ((lf @ groupLeafs c g gid)
         @ concat (map (\<lambda>g'. groupLeafs c g' (gid + LEAFS_PER_GROUP + (g' - (g + 1)) * LEAFS_PER_GROUP))
                     [g + 1 ..< LEAF_GROUPS]),
        gid + LEAFS_PER_GROUP + (LEAF_GROUPS - (g + 1)) * LEAFS_PER_GROUP)"
      using "1.IH" [OF True] by (simp only: step fst_conv snd_conv)
    finally show ?thesis
      by (simp only: st fst_conv snd_conv m a upt_conv_Cons [OF True] list.map concat.simps
            append_assoc diff_self_eq_0 mult_0 add_0_right Suc_eq_plus1)
  next
    case False
    then show ?thesis by (subst groupLoop.simps) simp
  qed
qed

lemma groupLoop_closed:
  "groupLoop c 0 (lf, gid) = (lf @ clusterLeafs c gid, gid + LEAF_GROUPS * LEAFS_PER_GROUP)"
  by (simp add: groupLoop_closed_aux clusterLeafs_def)

lemma clusterLoop_closed_aux:
  "clusterLoop cc c (sp, lf, gid) =
     (sp @ concat (map (\<lambda>c'. clusterSpines c' (gid + (c' - c) * NODES_PER_CLUSTER))
                     [c ..< clusterTotal cc]),
      lf @ concat (map (\<lambda>c'. clusterLeafs c' (gid + (c' - c) * NODES_PER_CLUSTER + SPINE_COUNT))
                     [c ..< clusterTotal cc]),
      gid + (clusterTotal cc - c) * NODES_PER_CLUSTER)"
proof (induction cc c "(sp, lf, gid)" arbitrary: sp lf gid rule: clusterLoop.induct)
  case (1 cc c sp lf gid)
  show ?case
  proof (cases "c < clusterTotal cc")
    case True
    then have lt: "of_nat c < cc"
      by (simp only: of_nat_less_clusterTotal)
    have s1: "spineLoop c 0 (sp, gid) = (sp @ clusterSpines c gid, gid + SPINE_COUNT)"
      by (simp add: spineLoop_closed clusterSpines_def)
    have s2: "groupLoop c 0 (lf, gid + SPINE_COUNT)
        = (lf @ clusterLeafs c (gid + SPINE_COUNT), gid + NODES_PER_CLUSTER)"
      by (simp add: groupLoop_closed NODES_PER_CLUSTER_def)
    have m1: "map (\<lambda>c'. clusterSpines c' (gid + NODES_PER_CLUSTER + (c' - (c + 1)) * NODES_PER_CLUSTER))
                [c + 1 ..< clusterTotal cc]
            = map (\<lambda>c'. clusterSpines c' (gid + (c' - c) * NODES_PER_CLUSTER))
                [c + 1 ..< clusterTotal cc]"
    proof (rule map_cong [OF refl])
      fix k assume "k \<in> set [c + 1 ..< clusterTotal cc]"
      then have "k - c = Suc (k - (c + 1))" by auto
      then have "gid + NODES_PER_CLUSTER + (k - (c + 1)) * NODES_PER_CLUSTER
          = gid + (k - c) * NODES_PER_CLUSTER" by simp
      then show "clusterSpines k (gid + NODES_PER_CLUSTER + (k - (c + 1)) * NODES_PER_CLUSTER)
          = clusterSpines k (gid + (k - c) * NODES_PER_CLUSTER)" by (rule arg_cong)
    qed
    have m2: "map (\<lambda>c'. clusterLeafs c'
                    (gid + NODES_PER_CLUSTER + (c' - (c + 1)) * NODES_PER_CLUSTER + SPINE_COUNT))
                [c + 1 ..< clusterTotal cc]
            = map (\<lambda>c'. clusterLeafs c' (gid + (c' - c) * NODES_PER_CLUSTER + SPINE_COUNT))
                [c + 1 ..< clusterTotal cc]"
    proof (rule map_cong [OF refl])
      fix k assume "k \<in> set [c + 1 ..< clusterTotal cc]"
      then have "k - c = Suc (k - (c + 1))" by auto
      then have "gid + NODES_PER_CLUSTER + (k - (c + 1)) * NODES_PER_CLUSTER + SPINE_COUNT
          = gid + (k - c) * NODES_PER_CLUSTER + SPINE_COUNT" by simp
      then show "clusterLeafs k
            (gid + NODES_PER_CLUSTER + (k - (c + 1)) * NODES_PER_CLUSTER + SPINE_COUNT)
          = clusterLeafs k (gid + (k - c) * NODES_PER_CLUSTER + SPINE_COUNT)" by (rule arg_cong)
    qed
    have a: "gid + NODES_PER_CLUSTER + (clusterTotal cc - (c + 1)) * NODES_PER_CLUSTER
        = gid + (clusterTotal cc - c) * NODES_PER_CLUSTER"
    proof -
      from True have "clusterTotal cc - c = Suc (clusterTotal cc - (c + 1))" by auto
      then show ?thesis by simp
    qed
    have "clusterLoop cc c (sp, lf, gid)
        = clusterLoop cc (c + 1)
            (sp @ clusterSpines c gid, lf @ clusterLeafs c (gid + SPINE_COUNT), gid + NODES_PER_CLUSTER)"
      by (subst clusterLoop.simps) (simp add: lt s1 s2)
    also have "\<dots> = ((sp @ clusterSpines c gid)
          @ concat (map (\<lambda>c'. clusterSpines c'
                            (gid + NODES_PER_CLUSTER + (c' - (c + 1)) * NODES_PER_CLUSTER))
                      [c + 1 ..< clusterTotal cc]),
        (lf @ clusterLeafs c (gid + SPINE_COUNT))
          @ concat (map (\<lambda>c'. clusterLeafs c'
                            (gid + NODES_PER_CLUSTER + (c' - (c + 1)) * NODES_PER_CLUSTER + SPINE_COUNT))
                      [c + 1 ..< clusterTotal cc]),
        gid + NODES_PER_CLUSTER + (clusterTotal cc - (c + 1)) * NODES_PER_CLUSTER)"
      by (rule "1.hyps" [OF lt s1 [symmetric] s2 [symmetric]])
    finally show ?thesis
      by (simp only: m1 m2 a upt_conv_Cons [OF True] list.map concat.simps
            append_assoc diff_self_eq_0 mult_0 add_0_right Suc_eq_plus1)
  next
    case False
    then have "\<not> of_nat c < cc"
      by (simp add: of_nat_less_clusterTotal)
    with False show ?thesis
      by (subst clusterLoop.simps) simp
  qed
qed

lemma clusterLoop_closed:
  "clusterLoop cc 0 ([], [], 0) =
     (genSpines (clusterTotal cc), genLeafs (clusterTotal cc), clusterTotal cc * NODES_PER_CLUSTER)"
  by (simp add: clusterLoop_closed_aux genSpines_def genLeafs_def)


lemma serverGroupLoop_closed_aux:
  "g \<le> LEAF_GROUPS \<Longrightarrow> fst (serverGroupLoop bz g (sv, gid)) =
     sv @ concat (map (\<lambda>g'. groupServers bz g' (gid + (g' - g) * SERVERS_PER_GROUP_STD))
                    [g ..< LEAF_GROUPS])"
proof (induction bz g "(sv, gid)" arbitrary: sv gid rule: serverGroupLoop.induct)
  case (1 bz g sv gid)
  show ?case
  proof (cases "g < LEAF_GROUPS")
    case True
    have step: "serverLoop bz (serverCountOf g) g 0 (sv, gid)
        = (sv @ groupServers bz g gid, gid + serverCountOf g)"
      by (simp add: serverLoop_closed groupServers_def)
    have m: "map (\<lambda>g'. groupServers bz g'
                   (gid + serverCountOf g + (g' - (g + 1)) * SERVERS_PER_GROUP_STD))
               [g + 1 ..< LEAF_GROUPS]
           = map (\<lambda>g'. groupServers bz g' (gid + (g' - g) * SERVERS_PER_GROUP_STD))
               [g + 1 ..< LEAF_GROUPS]"
    proof (rule map_cong [OF refl])
      fix k assume k: "k \<in> set [g + 1 ..< LEAF_GROUPS]"
      then have "k - g = Suc (k - (g + 1))" by auto
      moreover from k have "serverCountOf g = SERVERS_PER_GROUP_STD"
        by (auto simp: serverCountOf_def LEAF_GROUPS_def)
      ultimately have "gid + serverCountOf g + (k - (g + 1)) * SERVERS_PER_GROUP_STD
          = gid + (k - g) * SERVERS_PER_GROUP_STD" by simp
      then show "groupServers bz k (gid + serverCountOf g + (k - (g + 1)) * SERVERS_PER_GROUP_STD)
          = groupServers bz k (gid + (k - g) * SERVERS_PER_GROUP_STD)" by (rule arg_cong)
    qed
    from True have le: "g + 1 \<le> LEAF_GROUPS" by simp
    have cnt: "(if g = 15 then SERVERS_LAST_GROUP else SERVERS_PER_GROUP_STD) = serverCountOf g"
      by (simp add: serverCountOf_def)
    have "serverGroupLoop bz g (sv, gid)
        = serverGroupLoop bz (g + 1) (sv @ groupServers bz g gid, gid + serverCountOf g)"
      by (subst serverGroupLoop.simps) (simp only: True if_True Let_def cnt step)
    then have "fst (serverGroupLoop bz g (sv, gid))
        = (sv @ groupServers bz g gid)
          @ concat (map (\<lambda>g'. groupServers bz g'
                            (gid + serverCountOf g + (g' - (g + 1)) * SERVERS_PER_GROUP_STD))
                      [g + 1 ..< LEAF_GROUPS])"
      using "1.hyps" [OF True refl, unfolded cnt, OF step le]
      by simp
    then show ?thesis
      by (simp only: m upt_conv_Cons [OF True] list.map concat.simps
            append_assoc diff_self_eq_0 mult_0 add_0_right Suc_eq_plus1)
  next
    case False
    then show ?thesis
      by (subst serverGroupLoop.simps) simp
  qed
qed

lemma serverGroupLoop_closed:
  "fst (serverGroupLoop bz 0 ([], gid)) = genServers bz gid"
  by (simp add: serverGroupLoop_closed_aux genServers_def)

lemma layout_closed:
  "layout cc b =
     \<lparr> spines = genSpines (clusterTotal cc),
       leafs = genLeafs (clusterTotal cc),
       servers = (if b then genServers (baseZOf cc) (clusterTotal cc * NODES_PER_CLUSTER) else []) \<rparr>"
  by (simp add: layout_def clusterLoop_closed serverGroupLoop_closed baseZOf_def Let_def)

lemma spineNode_fields [simp]:
  "id_n (spineNode c i gid) = gid"
  "clusterId (spineNode c i gid) = Some c"
  "type (spineNode c i gid) = Spine"
  "groupId (spineNode c i gid) = None"
  "y_v (position (spineNode c i gid)) = SPINE_Y"
  "z_v (position (spineNode c i gid)) = - (of_nat c * CLUSTER_SPACING_Z)"
  by (simp_all add: spineNode_def Let_def)

lemma leafNode_fields [simp]:
  "id_n (leafNode c g l gid) = gid"
  "clusterId (leafNode c g l gid) = Some c"
  "type (leafNode c g l gid) = Leaf"
  "groupId (leafNode c g l gid) = Some g"
  "y_v (position (leafNode c g l gid)) = LEAF_Y"
  by (simp_all add: leafNode_def Let_def)

lemma serverNode_fields [simp]:
  "id_n (serverNode bz n g s gid) = gid"
  "clusterId (serverNode bz n g s gid) = None"
  "type (serverNode bz n g s gid) = Server"
  "groupId (serverNode bz n g s gid) = Some g"
  "y_v (position (serverNode bz n g s gid)) = SERVER_Y"
  "z_v (position (serverNode bz n g s gid)) = bz + (of_nat s - (of_nat n - 1) / 2)"
  by (simp_all add: serverNode_def Let_def SERVER_SPACING_def)

lemma length_clusterSpines [simp]: "length (clusterSpines c gid) = SPINE_COUNT"
  by (simp add: clusterSpines_def)

lemma length_groupLeafs [simp]: "length (groupLeafs c g gid) = LEAFS_PER_GROUP"
  by (simp add: groupLeafs_def)

lemma sum_list_const: "(\<Sum>x\<leftarrow>xs. (k::nat)) = length xs * k"
  by (induction xs) simp_all

lemma length_clusterLeafs [simp]:
  "length (clusterLeafs c gid) = LEAF_GROUPS * LEAFS_PER_GROUP"
  by (simp add: clusterLeafs_def length_concat comp_def sum_list_const)

lemma genSpines_Suc: "genSpines (Suc n) = genSpines n @ clusterSpines n (n * NODES_PER_CLUSTER)"
  by (simp add: genSpines_def)

lemma genLeafs_Suc:
  "genLeafs (Suc n) = genLeafs n @ clusterLeafs n (n * NODES_PER_CLUSTER + SPINE_COUNT)"
  by (simp add: genLeafs_def)

lemma genSpines_0 [simp]: "genSpines 0 = []"
  by (simp add: genSpines_def)

lemma genLeafs_0 [simp]: "genLeafs 0 = []"
  by (simp add: genLeafs_def)

lemma length_genSpines: "length (genSpines n) = SPINE_COUNT * n"
  by (induction n) (simp_all add: genSpines_Suc)

lemma length_genLeafs: "length (genLeafs n) = LEAF_GROUPS * LEAFS_PER_GROUP * n"
  by (induction n) (simp_all add: genLeafs_Suc)

lemma set_clusterSpines:
  "set (clusterSpines c gid) = (\<lambda>i. spineNode c i (gid + i)) ` {..< SPINE_COUNT}"
  by (auto simp: clusterSpines_def)

lemma set_groupLeafs:
  "set (groupLeafs c g gid) = (\<lambda>l. leafNode c g l (gid + l)) ` {..< LEAFS_PER_GROUP}"
  by (auto simp: groupLeafs_def)

lemma in_clusterLeafs:
  "x \<in> set (clusterLeafs c gid) \<longleftrightarrow>
     (\<exists>g l. g < LEAF_GROUPS \<and> l < LEAFS_PER_GROUP \<and> x = leafNode c g l (gid + g * LEAFS_PER_GROUP + l))"
  by (auto simp: clusterLeafs_def set_groupLeafs)

lemma in_genSpines:
  "x \<in> set (genSpines n) \<longleftrightarrow>
     (\<exists>c i. c < n \<and> i < SPINE_COUNT \<and> x = spineNode c i (c * NODES_PER_CLUSTER + i))"
  by (auto simp: genSpines_def set_clusterSpines)

lemma in_genLeafs:
  "x \<in> set (genLeafs n) \<longleftrightarrow>
     (\<exists>c g l. c < n \<and> g < LEAF_GROUPS \<and> l < LEAFS_PER_GROUP
        \<and> x = leafNode c g l (c * NODES_PER_CLUSTER + SPINE_COUNT + g * LEAFS_PER_GROUP + l))"
  by (auto simp: genLeafs_def in_clusterLeafs Bex_def)

lemma in_groupServers:
  "x \<in> set (groupServers bz g gid) \<longleftrightarrow>
     (\<exists>s. s < serverCountOf g \<and> x = serverNode bz (serverCountOf g) g s (gid + s))"
  by (auto simp: groupServers_def)

lemma in_genServers:
  "x \<in> set (genServers bz gid) \<longleftrightarrow>
     (\<exists>g s. g < LEAF_GROUPS \<and> s < serverCountOf g
        \<and> x = serverNode bz (serverCountOf g) g s (gid + g * SERVERS_PER_GROUP_STD + s))"
  by (auto simp: genServers_def in_groupServers Bex_def)

lemma length_groupServers [simp]: "length (groupServers bz g gid) = serverCountOf g"
  by (simp add: groupServers_def)

lemma length_genServers: "length (genServers bz gid) = 1016"
  by (simp add: genServers_def length_concat comp_def LEAF_GROUPS_def serverCountOf_def
      SERVERS_LAST_GROUP_def SERVERS_PER_GROUP_STD_def upt_rec [of _ "numeral _"])

lemma filter_const: "filter (\<lambda>x. A) xs = (if A then xs else [])"
  by (induction xs) simp_all

lemma filter_conj_const: "filter (\<lambda>x. A \<and> P x) xs = (if A then filter P xs else [])"
  by (induction xs) simp_all

lemma filter_eq_upt: "filter (\<lambda>x. x = a) [0 ..< n] = (if a < n then [a] else [])"
  by (induction n) auto

lemma sum_list_if_eq: "(\<Sum>x\<leftarrow>[0 ..< n]. if x = a then (k::nat) else 0) = (if a < n then k else 0)"
  by (induction n) auto

lemma filter_groupLeafs:
  assumes "\<And>l gid. P (leafNode c g l gid) = Q"
  shows "filter P (groupLeafs c g gid) = (if Q then groupLeafs c g gid else [])"
  by (simp add: groupLeafs_def filter_map comp_def assms filter_const)

lemma length_filter_clusterLeafs:
  assumes "\<And>g l gid. P (leafNode c g l gid) = Q g"
  shows "length (filter P (clusterLeafs c gid)) = LEAFS_PER_GROUP * length (filter Q [0 ..< LEAF_GROUPS])"
proof -
  have fg: "filter P (groupLeafs c g gid') = (if Q g then groupLeafs c g gid' else [])" for g gid'
    by (rule filter_groupLeafs) (rule assms)
  have "length (filter P (concat (map (\<lambda>g. groupLeafs c g (gid + g * LEAFS_PER_GROUP)) gs)))
      = LEAFS_PER_GROUP * length (filter Q gs)" for gs
    by (induction gs) (simp_all add: fg)
  then show ?thesis
    by (simp add: clusterLeafs_def)
qed

lemma length_filter_genLeafs:
  assumes "\<And>c g l gid. P (leafNode c g l gid) = Q c g"
  shows "length (filter P (genLeafs n))
    = (\<Sum>c\<leftarrow>[0 ..< n]. LEAFS_PER_GROUP * length (filter (Q c) [0 ..< LEAF_GROUPS]))"
proof -
  have fc: "length (filter P (clusterLeafs c gid))
      = LEAFS_PER_GROUP * length (filter (Q c) [0 ..< LEAF_GROUPS])" for c gid
    by (rule length_filter_clusterLeafs) (rule assms)
  show ?thesis
    by (induction n) (simp_all add: genLeafs_Suc fc)
qed

lemma count_leafs_cluster:
  "length (filter (\<lambda>l. clusterId l = Some c) (genLeafs n))
     = (if c < n then LEAF_GROUPS * LEAFS_PER_GROUP else 0)"
  by (subst length_filter_genLeafs [where Q = "\<lambda>c' g. c' = c"])
     (simp_all add: filter_const if_distrib [of "\<lambda>xs. _ * length xs"] sum_list_if_eq
        cong: if_cong)

lemma count_leafs_group:
  "length (filter (\<lambda>l. groupId l = Some g) (genLeafs n))
     = (if g < LEAF_GROUPS then LEAFS_PER_GROUP * n else 0)"
  by (subst length_filter_genLeafs [where Q = "\<lambda>c g'. g' = g"])
     (simp_all add: filter_eq_upt sum_list_const)

lemma count_leafs_cluster_group:
  "length (filter (\<lambda>l. clusterId l = Some c \<and> groupId l = Some g) (genLeafs n))
     = (if c < n \<and> g < LEAF_GROUPS then LEAFS_PER_GROUP else 0)"
  by (subst length_filter_genLeafs [where Q = "\<lambda>c' g'. c' = c \<and> g' = g"])
     (simp_all add: filter_conj_const filter_eq_upt if_distrib [of "\<lambda>xs. _ * length xs"]
        sum_list_if_eq cong: if_cong)

lemma filter_clusterSpines:
  "filter (\<lambda>s. clusterId s = Some c) (clusterSpines c' gid)
     = (if c' = c then clusterSpines c' gid else [])"
  by (simp add: clusterSpines_def filter_map comp_def filter_const)

lemma count_spines_cluster:
  "length (filter (\<lambda>s. clusterId s = Some c) (genSpines n)) = (if c < n then SPINE_COUNT else 0)"
  by (induction n) (auto simp: genSpines_Suc filter_clusterSpines)

lemma filter_groupServers:
  "filter (\<lambda>s. groupId s = Some g) (groupServers bz g' gid)
     = (if g' = g then groupServers bz g' gid else [])"
  by (simp add: groupServers_def filter_map comp_def filter_const)

lemma count_servers_group:
  "length (filter (\<lambda>s. groupId s = Some g) (genServers bz gid))
     = (if g < LEAF_GROUPS then serverCountOf g else 0)"
proof -
  have "length (filter (\<lambda>s. groupId s = Some g)
          (concat (map (\<lambda>g'. groupServers bz g' (gid + g' * SERVERS_PER_GROUP_STD)) [0 ..< k])))
      = (if g < k then serverCountOf g else 0)" for k
    by (induction k) (auto simp: filter_groupServers less_Suc_eq)
  then show ?thesis
    by (simp add: genServers_def)
qed

lemma list_all_genSpines_y: "list_all (\<lambda>s. y_v (position s) = SPINE_Y) (genSpines n)"
  by (auto simp: list_all_iff in_genSpines)

lemma list_all_genLeafs_y: "list_all (\<lambda>l. y_v (position l) = LEAF_Y) (genLeafs n)"
  by (auto simp: list_all_iff in_genLeafs)

lemma clusterTotal_of_nat [simp]: "clusterTotal (of_nat n) = n"
  by (simp add: clusterTotal_def)

lemma clusterTotal_numeral [simp]: "clusterTotal 0 = 0" "clusterTotal 1 = 1" "clusterTotal (numeral k) = numeral k"
  by (simp_all add: clusterTotal_def)

section \<open>Claims about the layout generator\<close>

text \<open>
  Claim C6. For every cluster count \<open>n \<ge> 0\<close> the generated topology has exactly \<open>64 * n\<close>
  spines and \<open>128 * n\<close> leafs, every (cluster, group) pair with \<open>c < n\<close> and \<open>g < 16\<close> holding
  exactly 8 leafs; every spine lies at height \<open>SPINE_Y = 15\<close> and every leaf at height
  \<open>LEAF_Y = -5\<close>; for cluster count 0 the spine and leaf sequences are empty (the generator
  has no failing branch).
\<close>

theorem layout_counts:
  "length (spines (layout (of_nat n) b)) = 64 * n
   \<and> length (leafs (layout (of_nat n) b)) = 128 * n
   \<and> (\<forall>c g. c < n \<and> g < 16 \<longrightarrow>
         length (filter (\<lambda>l. clusterId l = Some c \<and> groupId l = Some g)
                   (leafs (layout (of_nat n) b))) = 8)
   \<and> list_all (\<lambda>s. y_v (position s) = 15) (spines (layout (of_nat n) b))
   \<and> list_all (\<lambda>l. y_v (position l) = - 5) (leafs (layout (of_nat n) b))
   \<and> SPINE_Y = 15 \<and> LEAF_Y = - 5
   \<and> spines (layout 0 b) = [] \<and> leafs (layout 0 b) = []"
  using list_all_genSpines_y [of n] list_all_genLeafs_y [of n]
  by (simp add: layout_closed length_genSpines length_genLeafs count_leafs_cluster_group
      SPINE_COUNT_def LEAF_GROUPS_def LEAFS_PER_GROUP_def SPINE_Y_def LEAF_Y_def)

theorem layout_counts_witness:
  "(0::nat) < 1 \<and> (15::nat) < 16
   \<and> length (spines (layout 1 False)) = 64
   \<and> length (leafs (layout 1 False)) = 128
   \<and> length (filter (\<lambda>l. clusterId l = Some 0 \<and> groupId l = Some 15)
                (leafs (layout 1 False))) = 8"
  using layout_counts [of 1 False] by simp

text \<open>
  Claim C7. With servers on, the topology holds exactly \<open>15 * 64 + 56 = 1016\<close> servers
  whatever the cluster count; group 15 holds 56 of them, every other group below 16 holds
  64, and no other group id occurs. With servers off the server sequence is empty.
\<close>

theorem server_counts:
  "length (servers (layout clusterCount True)) = 1016
   \<and> 15 * 64 + 56 = (1016::nat)
   \<and> length (filter (\<lambda>s. groupId s = Some g) (servers (layout clusterCount True)))
       = (if g = 15 then 56 else if g < 16 then 64 else 0)
   \<and> servers (layout clusterCount False) = []"
  by (simp add: layout_closed length_genServers count_servers_group serverCountOf_def
      LEAF_GROUPS_def SERVERS_LAST_GROUP_def SERVERS_PER_GROUP_STD_def)

lemma ids_clusterSpines: "map id_n (clusterSpines c gid) = map (\<lambda>i. gid + i) [0 ..< SPINE_COUNT]"
  by (simp add: clusterSpines_def comp_def)

lemma id_genSpines_less: "x \<in> set (genSpines n) \<Longrightarrow> id_n x < n * NODES_PER_CLUSTER"
  by (auto simp: in_genSpines NODES_PER_CLUSTER_def SPINE_COUNT_def LEAF_GROUPS_def
      LEAFS_PER_GROUP_def)

lemma id_genLeafs_less: "x \<in> set (genLeafs n) \<Longrightarrow> id_n x < n * NODES_PER_CLUSTER"
  by (auto simp: in_genLeafs NODES_PER_CLUSTER_def SPINE_COUNT_def LEAF_GROUPS_def
      LEAFS_PER_GROUP_def)

lemma id_genServers_ge: "x \<in> set (genServers bz gid) \<Longrightarrow> gid \<le> id_n x"
  by (auto simp: in_genServers)

lemma distinct_ids_clusterSpines: "distinct (map id_n (clusterSpines c gid))"
  by (simp add: ids_clusterSpines distinct_map inj_on_def)

lemma distinct_ids_genSpines: "distinct (map id_n (genSpines n))"
proof (induction n)
  case 0
  show ?case by simp
next
  case (Suc n)
  have "id_n x \<noteq> id_n y"
    if "x \<in> set (genSpines n)" "y \<in> set (clusterSpines n (n * NODES_PER_CLUSTER))" for x y
    using id_genSpines_less [OF that(1)] that(2) by (auto simp: set_clusterSpines)
  then show ?case
    using Suc by (auto simp: genSpines_Suc distinct_ids_clusterSpines)
qed

lemma distinct_ids_groupLeafs: "distinct (map id_n (groupLeafs c g gid))"
  by (simp add: groupLeafs_def comp_def distinct_map inj_on_def)

lemma distinct_ids_clusterLeafs: "distinct (map id_n (clusterLeafs c gid))"
proof -
  have "distinct (map id_n (concat (map (\<lambda>g. groupLeafs c g (gid + g * LEAFS_PER_GROUP)) [0 ..< k])))
      \<and> (\<forall>x \<in> set (concat (map (\<lambda>g. groupLeafs c g (gid + g * LEAFS_PER_GROUP)) [0 ..< k])).
            id_n x < gid + k * LEAFS_PER_GROUP)" for k
  proof (induction k)
    case 0
    show ?case by simp
  next
    case (Suc k)
    then show ?case
      by (auto simp: distinct_ids_groupLeafs set_groupLeafs LEAFS_PER_GROUP_def)
  qed
  then show ?thesis
    by (simp add: clusterLeafs_def)
qed

lemma id_clusterLeafs_ge: "x \<in> set (clusterLeafs c gid) \<Longrightarrow> gid \<le> id_n x"
  by (auto simp: in_clusterLeafs)

lemma distinct_ids_genLeafs: "distinct (map id_n (genLeafs n))"
proof (induction n)
  case 0
  show ?case by simp
next
  case (Suc n)
  have "id_n x \<noteq> id_n y"
    if "x \<in> set (genLeafs n)" "y \<in> set (clusterLeafs n (n * NODES_PER_CLUSTER + SPINE_COUNT))" for x y
    using id_genLeafs_less [OF that(1)] id_clusterLeafs_ge [OF that(2)] by simp
  then show ?case
    using Suc by (auto simp: genLeafs_Suc distinct_ids_clusterLeafs)
qed

lemma distinct_ids_groupServers: "distinct (map id_n (groupServers bz g gid))"
  by (simp add: groupServers_def comp_def distinct_map inj_on_def)

lemma serverCountOf_le: "serverCountOf g \<le> SERVERS_PER_GROUP_STD"
  by (simp add: serverCountOf_def SERVERS_LAST_GROUP_def SERVERS_PER_GROUP_STD_def)

lemma id_groupServers_bounds:
  "x \<in> set (groupServers bz g gid) \<Longrightarrow> gid \<le> id_n x \<and> id_n x < gid + SERVERS_PER_GROUP_STD"
  using serverCountOf_le [of g] by (auto simp: in_groupServers)

lemma id_server_prefix_less:
  "x \<in> set (concat (map (\<lambda>g. groupServers bz g (gid + g * SERVERS_PER_GROUP_STD)) [0 ..< k]))
   \<Longrightarrow> id_n x < gid + k * SERVERS_PER_GROUP_STD"
proof (induction k)
  case 0
  then show ?case by simp
next
  case (Suc k)
  from Suc.prems have "x \<in> set (concat (map (\<lambda>g. groupServers bz g (gid + g * SERVERS_PER_GROUP_STD)) [0 ..< k]))
      \<or> x \<in> set (groupServers bz k (gid + k * SERVERS_PER_GROUP_STD))"
    by simp
  then show ?case
  proof
    assume "x \<in> set (concat (map (\<lambda>g. groupServers bz g (gid + g * SERVERS_PER_GROUP_STD)) [0 ..< k]))"
    from Suc.IH [OF this] show ?thesis by simp
  next
    assume "x \<in> set (groupServers bz k (gid + k * SERVERS_PER_GROUP_STD))"
    from id_groupServers_bounds [OF this] show ?thesis by simp
  qed
qed

lemma distinct_ids_genServers: "distinct (map id_n (genServers bz gid))"
proof -
  have "distinct (map id_n (concat (map (\<lambda>g. groupServers bz g (gid + g * SERVERS_PER_GROUP_STD))
                                      [0 ..< k])))" for k
  proof (induction k)
    case 0
    show ?case by simp
  next
    case (Suc k)
    have "id_n x \<noteq> id_n y"
      if "x \<in> set (concat (map (\<lambda>g. groupServers bz g (gid + g * SERVERS_PER_GROUP_STD)) [0 ..< k]))"
        and "y \<in> set (groupServers bz k (gid + k * SERVERS_PER_GROUP_STD))" for x y
      using id_server_prefix_less [OF that(1)] id_groupServers_bounds [OF that(2)] by simp
    then have "id_n ` set (concat (map (\<lambda>g. groupServers bz g (gid + g * SERVERS_PER_GROUP_STD)) [0 ..< k]))
        \<inter> id_n ` set (groupServers bz k (gid + k * SERVERS_PER_GROUP_STD)) = {}"
      by blast
    with Suc show ?case
      by (simp add: distinct_ids_groupServers)
  qed
  then show ?thesis
    by (simp add: genServers_def)
qed

lemma spine_leaf_ids_differ:
  assumes "x \<in> set (genSpines n)" "y \<in> set (genLeafs n)"
  shows "id_n x \<noteq> id_n y"
proof -
  from assms(1) obtain c i where x: "i < 64" "id_n x = c * 192 + i"
    by (auto simp: in_genSpines NODES_PER_CLUSTER_def SPINE_COUNT_def LEAF_GROUPS_def
        LEAFS_PER_GROUP_def)
  from assms(2) obtain c' g l where y: "g < 16" "l < 8" "id_n y = c' * 192 + (64 + g * 8 + l)"
    by (auto simp: in_genLeafs NODES_PER_CLUSTER_def SPINE_COUNT_def LEAF_GROUPS_def
        LEAFS_PER_GROUP_def)
  from x have "id_n x mod 192 < 64"
    by simp
  moreover from y have "64 \<le> id_n y mod 192"
    by simp
  ultimately show ?thesis
    by auto
qed

lemma spine_leaf_ids_disjoint: "id_n ` set (genSpines n) \<inter> id_n ` set (genLeafs n) = {}"
  using spine_leaf_ids_differ [of _ n] by blast

lemma spine_server_ids_disjoint:
  "id_n ` set (genSpines n) \<inter> id_n ` set (genServers bz (n * NODES_PER_CLUSTER)) = {}"
proof -
  have "id_n x \<noteq> id_n y"
    if "x \<in> set (genSpines n)" "y \<in> set (genServers bz (n * NODES_PER_CLUSTER))" for x y
    using id_genSpines_less [OF that(1)] id_genServers_ge [OF that(2)] by simp
  then show ?thesis by blast
qed

lemma leaf_server_ids_disjoint:
  "id_n ` set (genLeafs n) \<inter> id_n ` set (genServers bz (n * NODES_PER_CLUSTER)) = {}"
proof -
  have "id_n x \<noteq> id_n y"
    if "x \<in> set (genLeafs n)" "y \<in> set (genServers bz (n * NODES_PER_CLUSTER))" for x y
    using id_genLeafs_less [OF that(1)] id_genServers_ge [OF that(2)] by simp
  then show ?thesis by blast
qed

lemma distinct_ids_layout:
  "distinct (map id_n (genSpines n @ genLeafs n @ genServers bz (n * NODES_PER_CLUSTER)))"
  by (simp add: distinct_ids_genSpines distinct_ids_genLeafs distinct_ids_genServers
      spine_leaf_ids_disjoint spine_server_ids_disjoint leaf_server_ids_disjoint Int_Un_distrib)

lemma distinct_ids_layout_noservers:
  "distinct (map id_n (genSpines n @ genLeafs n))"
  by (simp add: distinct_ids_genSpines distinct_ids_genLeafs spine_leaf_ids_disjoint)

text \<open>
  Claim C9. In a generated topology the node ids are pairwise different across the
  three sequences; every leaf carries a cluster id and a group id, the group id at most
  15 and the cluster id below the cluster count; every spine carries a cluster id and no
  group id; every server carries a group id and no cluster id.
\<close>

theorem layout_invariants:
  "distinct (map id_n (spines (layout clusterCount b) @ leafs (layout clusterCount b)
                        @ servers (layout clusterCount b)))
   \<and> list_all (\<lambda>l. type l = Leaf
                   \<and> (\<exists>c g. clusterId l = Some c \<and> groupId l = Some g
                          \<and> 0 \<le> g \<and> g \<le> 15 \<and> 0 \<le> c \<and> of_nat c < clusterCount))
        (leafs (layout clusterCount b))
   \<and> list_all (\<lambda>s. type s = Spine \<and> (\<exists>c. clusterId s = Some c) \<and> groupId s = None)
        (spines (layout clusterCount b))
   \<and> list_all (\<lambda>s. type s = Server \<and> (\<exists>g. groupId s = Some g) \<and> clusterId s = None)
        (servers (layout clusterCount b))"
proof -
  have d: "distinct (map id_n (spines (layout clusterCount b) @ leafs (layout clusterCount b)
                        @ servers (layout clusterCount b)))"
    using distinct_ids_layout [of "clusterTotal clusterCount" "baseZOf clusterCount"]
      distinct_ids_layout_noservers [of "clusterTotal clusterCount"]
    by (cases b) (simp_all add: layout_closed)
  have l: "list_all (\<lambda>l. type l = Leaf
                   \<and> (\<exists>c g. clusterId l = Some c \<and> groupId l = Some g
                          \<and> 0 \<le> g \<and> g \<le> 15 \<and> 0 \<le> c \<and> of_nat c < clusterCount))
        (leafs (layout clusterCount b))"
    by (auto simp: layout_closed list_all_iff in_genLeafs LEAF_GROUPS_def
        of_nat_less_clusterTotal)
  have s: "list_all (\<lambda>s. type s = Spine \<and> (\<exists>c. clusterId s = Some c) \<and> groupId s = None)
        (spines (layout clusterCount b))"
    by (auto simp: layout_closed list_all_iff in_genSpines)
  have v: "list_all (\<lambda>s. type s = Server \<and> (\<exists>g. groupId s = Some g) \<and> clusterId s = None)
        (servers (layout clusterCount b))"
    by (auto simp: layout_closed list_all_iff in_genServers)
  from d l s v show ?thesis by blast
qed

lemma clusterTotal_nonpos: "clusterCount \<le> 0 \<Longrightarrow> clusterTotal clusterCount = 0"
proof -
  assume "clusterCount \<le> 0"
  then have "\<lceil>clusterCount\<rceil> \<le> 0"
    by (simp add: ceiling_le_iff)
  then show ?thesis
    by (simp add: clusterTotal_def)
qed

lemma ceiling_three_halves: "\<lceil>3 / 2 :: rat\<rceil> = 2"
  by (rule ceiling_unique) simp_all

lemma clusterTotal_idem: "clusterTotal (of_nat (clusterTotal clusterCount)) = clusterTotal clusterCount"
  by simp

lemma baseZOf_round: "baseZOf (of_nat (clusterTotal clusterCount)) = baseZOf clusterCount"
proof -
  have "(1 < clusterCount) = (1 < clusterTotal clusterCount)"
    using of_nat_less_clusterTotal [of 1 clusterCount] by simp
  then show ?thesis
    by (simp add: baseZOf_def)
qed

text \<open>
  Claim C4, as amended. The generator validates nothing and never fails: for every number
  it returns the topology of the next integer at or above it, and of 0 for everything at
  or below 0. So a non-integer count is rounded up (\<open>64 * \<lceil>clusterCount\<rceil>\<close> spines,
  \<open>128 * \<lceil>clusterCount\<rceil>\<close> leafs) and a negative count gives empty spine and leaf sequences.
\<close>

theorem layout_any_number:
  "layout clusterCount b = layout (of_nat (nat \<lceil>clusterCount\<rceil>)) b
   \<and> length (spines (layout clusterCount b)) = 64 * nat \<lceil>clusterCount\<rceil>
   \<and> length (leafs (layout clusterCount b)) = 128 * nat \<lceil>clusterCount\<rceil>
   \<and> (clusterCount \<le> 0 \<longrightarrow>
        spines (layout clusterCount b) = [] \<and> leafs (layout clusterCount b) = [])"
proof -
  have r: "layout clusterCount b = layout (of_nat (clusterTotal clusterCount)) b"
    by (simp only: layout_closed clusterTotal_idem baseZOf_round)
  have e: "clusterCount \<le> 0 \<longrightarrow>
        spines (layout clusterCount b) = [] \<and> leafs (layout clusterCount b) = []"
    by (simp add: layout_closed clusterTotal_nonpos)
  have n: "length (spines (layout clusterCount b)) = 64 * clusterTotal clusterCount"
    "length (leafs (layout clusterCount b)) = 128 * clusterTotal clusterCount"
    by (simp_all add: layout_closed length_genSpines length_genLeafs SPINE_COUNT_def
        LEAF_GROUPS_def LEAFS_PER_GROUP_def)
  from r e n show ?thesis
    by (simp add: clusterTotal_def)
qed

theorem layout_any_number_witness:
  "(- 1 :: rat) \<le> 0 \<and> spines (layout (- 1) True) = [] \<and> leafs (layout (- 1) True) = []
   \<and> length (spines (layout (3 / 2) True)) = 128"
proof -
  have e: "spines (layout (- 1) True) = [] \<and> leafs (layout (- 1) True) = []"
    using layout_any_number [of "- 1" True, THEN conjunct2, THEN conjunct2, THEN conjunct2]
    by simp
  have n: "length (spines (layout (3 / 2) True)) = 128"
    using layout_any_number [of "3 / 2" True, THEN conjunct2, THEN conjunct1]
    by (simp add: ceiling_three_halves)
  from e n show ?thesis by simp
qed

text \<open>
  The claim as stated fails: the count \<open>-1\<close> is silently treated like 0 and the count
  \<open>3 / 2\<close> like 2, each giving a topology.
\<close>

theorem layout_rejects_counterexample:
  "layout (- 1) False = \<lparr> spines = [], leafs = [], servers = [] \<rparr>
   \<and> layout (- 1) False = layout 0 False
   \<and> layout (3 / 2) False = layout 2 False
   \<and> length (spines (layout (3 / 2) False)) = 128
   \<and> length (leafs (layout (3 / 2) False)) = 256"
proof -
  have a: "clusterTotal (- 1) = 0" "clusterTotal (3 / 2) = 2"
    by (simp_all add: clusterTotal_def ceiling_three_halves)
  show ?thesis
    by (simp add: layout_closed a length_genSpines length_genLeafs SPINE_COUNT_def
        LEAF_GROUPS_def LEAFS_PER_GROUP_def)
qed

lemma filter_genServers_group:
  "filter (\<lambda>s. groupId s = Some g) (genServers bz gid)
     = (if g < LEAF_GROUPS then groupServers bz g (gid + g * SERVERS_PER_GROUP_STD) else [])"
proof -
  have "filter (\<lambda>s. groupId s = Some g)
          (concat (map (\<lambda>g'. groupServers bz g' (gid + g' * SERVERS_PER_GROUP_STD)) [0 ..< k]))
      = (if g < k then groupServers bz g (gid + g * SERVERS_PER_GROUP_STD) else [])" for k
    by (induction k) (auto simp: filter_groupServers less_Suc_eq)
  then show ?thesis
    by (simp add: genServers_def)
qed

lemma groupDepths_layout:
  "g < LEAF_GROUPS \<Longrightarrow>
   groupDepths (layout clusterCount True) g
     = map (\<lambda>s. baseZOf clusterCount + (of_nat s - (of_nat (serverCountOf g) - 1) / 2))
         [0 ..< serverCountOf g]"
  by (simp add: groupDepths_def layout_closed filter_genServers_group groupServers_def comp_def)

lemma symmetricAround_spread:
  assumes "0 < n"
  shows "symmetricAround base (map (\<lambda>s. bz + (of_nat s - (of_nat n - 1) / 2)) [0 ..< n])
    \<longleftrightarrow> base = bz"
proof -
  have mirror: "(bz + (of_nat k - (of_nat n - 1) / 2))
        + (bz + (of_nat (n - 1 - k) - (of_nat n - 1) / 2)) = 2 * bz" if "k < n" for k
  proof -
    from that have "(of_nat (n - 1 - k) :: rat) = of_nat n - 1 - of_nat k"
      by (simp add: of_nat_diff)
    then show ?thesis
      by (simp add: field_simps)
  qed
  have "symmetricAround base (map (\<lambda>s. bz + (of_nat s - (of_nat n - 1) / 2)) [0 ..< n])
      \<longleftrightarrow> (\<forall>k < n. 2 * bz = 2 * base)"
    using mirror by (auto simp: symmetricAround_def list_all_iff)
  also have "\<dots> \<longleftrightarrow> base = bz"
    using assms by auto
  finally show ?thesis .
qed

lemma serverCountOf_pos: "0 < serverCountOf g"
  by (simp add: serverCountOf_def SERVERS_LAST_GROUP_def SERVERS_PER_GROUP_STD_def)

text \<open>
  Claim C2. With servers on, the servers of a group are spread along the depth axis one
  unit apart, symmetrically around the base depth \<open>baseZ\<close>. For one and for two clusters
  \<open>baseZ\<close> is the midpoint between depth 0 and the last cluster's offset, as claimed. For
  three clusters it is not: the last cluster lies at depth \<open>-120\<close>, the claimed base depth
  is \<open>-60\<close>, which is also where the camera target is put, but every server group is
  still centred on \<open>-30\<close>, because \<open>baseZ\<close> is computed from the offset of the second
  cluster only.
\<close>

theorem server_base_depth_three_clusters:
  "spec_baseZ 3 = - 60
   \<and> z_v (orbitTarget 3) = spec_baseZ 3
   \<and> list_all (\<lambda>g. groupDepths (layout 3 True) g
                    = map (\<lambda>s. - 30 + (of_nat s - (of_nat (if g = 15 then 56 else 64) - 1) / 2))
                        [0 ..< (if g = 15 then 56 else 64)]) [0 ..< 16]
   \<and> list_all (\<lambda>g. symmetricAround (- 30) (groupDepths (layout 3 True) g)) [0 ..< 16]
   \<and> list_all (\<lambda>g. \<not> symmetricAround (spec_baseZ 3) (groupDepths (layout 3 True) g)) [0 ..< 16]
   \<and> list_all (\<lambda>g. symmetricAround (spec_baseZ 1) (groupDepths (layout 1 True) g)
                  \<and> symmetricAround (spec_baseZ 2) (groupDepths (layout 2 True) g)) [0 ..< 16]"
proof -
  have sp: "spec_baseZ 3 = - 60" "spec_baseZ 1 = baseZOf 1" "spec_baseZ 2 = baseZOf 2"
    "baseZOf 3 = - 30"
    by (simp_all add: spec_baseZ_def baseZOf_def CLUSTER_SPACING_Z_def)
  have t: "z_v (orbitTarget 3) = spec_baseZ 3"
    by (simp add: orbitTarget_def sp(1))
  have d: "groupDepths (layout 3 True) g
      = map (\<lambda>s. - 30 + (of_nat s - (of_nat (if g = 15 then 56 else 64) - 1) / 2))
          [0 ..< (if g = 15 then 56 else 64)]" if "g < 16" for g
  proof -
    from that have "g < LEAF_GROUPS"
      by (simp add: LEAF_GROUPS_def)
    from groupDepths_layout [OF this, of 3] show ?thesis
      by (simp add: sp(4) serverCountOf_def SERVERS_LAST_GROUP_def SERVERS_PER_GROUP_STD_def)
  qed
  have s: "symmetricAround base (groupDepths (layout cc True) g) \<longleftrightarrow> base = baseZOf cc"
    if "g < 16" for base cc g
  proof -
    from that have g': "g < LEAF_GROUPS"
      by (simp add: LEAF_GROUPS_def)
    show ?thesis
      by (simp only: groupDepths_layout [OF g'] symmetricAround_spread [OF serverCountOf_pos])
  qed
  have a: "list_all (\<lambda>g. groupDepths (layout 3 True) g
                    = map (\<lambda>s. - 30 + (of_nat s - (of_nat (if g = 15 then 56 else 64) - 1) / 2))
                        [0 ..< (if g = 15 then 56 else 64)]) [0 ..< 16]"
    unfolding list_all_iff using d by simp
  have b: "list_all (\<lambda>g. symmetricAround (- 30) (groupDepths (layout 3 True) g)) [0 ..< 16]"
    unfolding list_all_iff using s sp(4) by simp
  have c: "list_all (\<lambda>g. \<not> symmetricAround (spec_baseZ 3) (groupDepths (layout 3 True) g)) [0 ..< 16]"
    unfolding list_all_iff using s sp(1, 4) by simp
  have e: "list_all (\<lambda>g. symmetricAround (spec_baseZ 1) (groupDepths (layout 1 True) g)
                  \<and> symmetricAround (spec_baseZ 2) (groupDepths (layout 2 True) g)) [0 ..< 16]"
    unfolding list_all_iff using s sp(2, 3) by simp
  from sp(1) t a b c e show ?thesis
    by blast
qed

section \<open>The line builders in closed form\<close>

lemma foldl_cond_append:
  "foldl (\<lambda>acc x. if P x then acc @ f x else acc) acc xs = acc @ concat (map f (filter P xs))"
  by (induction xs arbitrary: acc) simp_all

lemma foldl_append_each:
  "foldl (\<lambda>acc x. acc @ g x) acc xs = acc @ concat (map g xs)"
  by (induction xs arbitrary: acc) simp_all

lemma flatten_concat_pairs:
  "concat (map (\<lambda>(a, b). linePoints a b) (concat (map (\<lambda>s. map (Pair s) (F s)) xs)))
     = concat (map (\<lambda>s. concat (map (linePoints s) (F s))) xs)"
  by (induction xs) (simp_all add: comp_def)

lemma staticGeo_closed:
  "staticGeo lay = concat (map (\<lambda>(a, b). linePoints a b) (meshPairs lay))"
proof -
  have push: "(points @ [a1, a2, a3]) @ [b1, b2, b3] = points @ [a1, a2, a3, b1, b2, b3]"
    for points :: "rat list" and a1 a2 a3 b1 b2 b3
    by simp
  have "staticGeo lay
      = concat (map (\<lambda>s. concat (map (linePoints s)
                    (filter (\<lambda>l. clusterId s = clusterId l) (leafs lay)))) (spines lay))
        @ concat (map (\<lambda>s. concat (map (linePoints s)
                    (filter (\<lambda>l. groupId l = groupId s) (leafs lay)))) (servers lay))"
    unfolding staticGeo_def Let_def push
    by (simp add: foldl_cond_append foldl_append_each linePoints_def [abs_def])
  then show ?thesis
    by (simp add: meshPairs_def flatten_concat_pairs)
qed

lemma foldl_cond_addLine:
  "foldl (\<lambda>acc x. if P x then addLine acc h x else acc) acc xs
     = acc @ concat (map (linePoints h) (filter P xs))"
  by (induction xs arbitrary: acc) (simp_all add: addLine_def linePoints_def)

lemma activeGeo_closed:
  "activeGeo lay (Some h) =
     Some (case type h of
             Spine \<Rightarrow> concat (map (linePoints h) (filter (\<lambda>l. clusterId l = clusterId h) (leafs lay)))
           | Leaf \<Rightarrow> concat (map (linePoints h) (filter (\<lambda>s. clusterId s = clusterId h) (spines lay)))
                     @ concat (map (linePoints h) (filter (\<lambda>s. groupId s = groupId h) (servers lay)))
           | Server \<Rightarrow> concat (map (linePoints h) (filter (\<lambda>l. groupId l = groupId h) (leafs lay))))"
  by (cases "type h") (simp_all add: activeGeo_def foldl_cond_addLine Let_def)

lemma length_concat_linePoints: "length (concat (map (linePoints h) xs)) = 6 * length xs"
  by (induction xs) (simp_all add: linePoints_def)

lemma length_flatten: "length (concat (map (\<lambda>(a, b). linePoints a b) ps)) = 6 * length ps"
  by (induction ps) (auto simp: linePoints_def)

lemma segmentCount_flatten [simp]:
  "segmentCount (concat (map (\<lambda>(a, b). linePoints a b) ps)) = length ps"
  by (simp add: segmentCount_def length_flatten)

lemma segmentCount_linePoints [simp]:
  "segmentCount (concat (map (linePoints h) xs)) = length xs"
  by (simp add: segmentCount_def length_concat_linePoints)

lemma segmentCount_append_linePoints [simp]:
  "segmentCount (concat (map (linePoints h) xs) @ concat (map (linePoints h) ys))
     = length xs + length ys"
  by (simp add: segmentCount_def length_concat_linePoints)

lemma distinct_pairs_from:
  "distinct xs \<Longrightarrow> distinct ys \<Longrightarrow>
   distinct (concat (map (\<lambda>x. map (Pair x) (filter (P x) ys)) xs))"
proof (induction xs)
  case Nil
  show ?case by simp
next
  case (Cons x xs)
  have "distinct (map (Pair x) (filter (P x) ys))"
    using Cons.prems(2) by (simp add: distinct_map inj_on_def)
  moreover have "set (map (Pair x) (filter (P x) ys))
      \<inter> set (concat (map (\<lambda>x. map (Pair x) (filter (P x) ys)) xs)) = {}"
    using Cons.prems(1) by auto
  ultimately show ?case
    using Cons by simp
qed

lemma distinct_meshPairs:
  assumes "distinct (spines lay @ servers lay)" "distinct (leafs lay)"
  shows "distinct (meshPairs lay)"
proof -
  from assms(1) have d: "distinct (spines lay)" "distinct (servers lay)"
    "set (spines lay) \<inter> set (servers lay) = {}"
    by simp_all
  have "set (concat (map (\<lambda>x. map (Pair x) (filter (P x) (leafs lay))) (spines lay)))
      \<inter> set (concat (map (\<lambda>x. map (Pair x) (filter (Q x) (leafs lay))) (servers lay))) = {}"
    for P Q :: "NodeData \<Rightarrow> NodeData \<Rightarrow> bool"
    using d(3) by auto
  then show ?thesis
    unfolding meshPairs_def
    by (simp add: distinct_pairs_from d assms(2))
qed

lemma set_meshPairs:
  "set (meshPairs lay) =
     {(s, l). s \<in> set (spines lay) \<and> l \<in> set (leafs lay) \<and> clusterId s = clusterId l}
     \<union> {(s, l). s \<in> set (servers lay) \<and> l \<in> set (leafs lay) \<and> groupId l = groupId s}"
  by (auto simp: meshPairs_def)

lemma length_pairs_const:
  assumes "\<And>x. x \<in> set xs \<Longrightarrow> length (filter (P x) ys) = k"
  shows "length (concat (map (\<lambda>x. map (Pair x) (filter (P x) ys)) xs)) = length xs * k"
  using assms by (induction xs) simp_all

lemma distinct_of_ids: "distinct (map id_n xs) \<Longrightarrow> distinct xs"
  by (simp add: distinct_map)

lemma distinct_genNodes:
  "distinct (genSpines n @ genServers bz (n * NODES_PER_CLUSTER))" "distinct (genLeafs n)"
  "distinct (genSpines n)"
proof -
  have d: "distinct (genSpines n @ genLeafs n @ genServers bz (n * NODES_PER_CLUSTER))"
    by (rule distinct_of_ids) (rule distinct_ids_layout)
  from d show "distinct (genSpines n @ genServers bz (n * NODES_PER_CLUSTER))"
    by auto
  from d show "distinct (genLeafs n)"
    by simp
  from d show "distinct (genSpines n)"
    by simp
qed

lemma distinct_meshPairs_layout: "distinct (meshPairs (layout clusterCount b))"
proof (rule distinct_meshPairs)
  show "distinct (spines (layout clusterCount b) @ servers (layout clusterCount b))"
    using distinct_genNodes(1) [of "clusterTotal clusterCount" "baseZOf clusterCount"]
      distinct_genNodes(3) [of "clusterTotal clusterCount"]
    by (cases b) (simp_all add: layout_closed)
  show "distinct (leafs (layout clusterCount b))"
    by (simp add: layout_closed distinct_genNodes(2))
qed

lemma meshPairs_same_group:
  "list_all (\<lambda>(n1, n2). (type n1 = Spine \<and> type n2 = Leaf \<and> clusterId n1 = clusterId n2)
                      \<or> (type n1 = Server \<and> type n2 = Leaf \<and> groupId n1 = groupId n2))
     (meshPairs (layout clusterCount b))"
  by (auto simp: list_all_iff set_meshPairs layout_closed in_genSpines in_genLeafs in_genServers)

lemma length_meshPairs_layout:
  "length (meshPairs (layout clusterCount b))
     = clusterTotal clusterCount * 8192 + (if b then 1016 * (8 * clusterTotal clusterCount) else 0)"
proof -
  let ?n = "clusterTotal clusterCount"
  have sp: "length (filter (\<lambda>l. clusterId s = clusterId l) (genLeafs ?n)) = 128"
    if "s \<in> set (genSpines ?n)" for s
  proof -
    from that obtain c where c: "c < ?n" "clusterId s = Some c"
      by (auto simp: in_genSpines)
    have "filter (\<lambda>l. clusterId s = clusterId l) (genLeafs ?n)
        = filter (\<lambda>l. clusterId l = Some c) (genLeafs ?n)"
      by (rule filter_cong) (auto simp: c(2))
    then show ?thesis
      using c(1) by (simp add: count_leafs_cluster LEAF_GROUPS_def LEAFS_PER_GROUP_def)
  qed
  have sv: "length (filter (\<lambda>l. groupId l = groupId s) (genLeafs ?n)) = 8 * ?n"
    if "s \<in> set (genServers bz gid)" for s bz gid
  proof -
    from that obtain g where g: "g < LEAF_GROUPS" "groupId s = Some g"
      by (auto simp: in_genServers)
    show ?thesis
      using g by (simp add: count_leafs_group LEAFS_PER_GROUP_def)
  qed
  have a: "length (concat (map (\<lambda>x. map (Pair x) (filter (\<lambda>l. clusterId x = clusterId l) (genLeafs ?n)))
                            (genSpines ?n))) = length (genSpines ?n) * 128"
    by (rule length_pairs_const) (rule sp)
  have b: "length (concat (map (\<lambda>x. map (Pair x) (filter (\<lambda>l. groupId l = groupId x) (genLeafs ?n)))
                            (genServers bz gid))) = length (genServers bz gid) * (8 * ?n)" for bz gid
    by (rule length_pairs_const) (rule sv)
  show ?thesis
    by (simp add: meshPairs_def layout_closed a b length_genSpines length_genServers SPINE_COUNT_def)
qed

section \<open>Claims about the line builders\<close>

text \<open>
  Claim C1. For every generated topology the full-mesh buffer consists of exactly one
  segment for each pair of a spine and a leaf with equal cluster id and one segment for
  each pair of a server and a leaf with equal group id, and of nothing else: it is the
  flattening of a duplicate-free list of node pairs whose set is exactly these pairs, so
  no segment joins different clusters or different groups. For one cluster with servers
  off there are exactly \<open>64 * 128 = 8192\<close> segments.
\<close>

theorem full_mesh_segments:
  "(\<exists>ps. staticGeo (layout clusterCount b) = concat (map (\<lambda>(n1, n2). linePoints n1 n2) ps)
        \<and> distinct ps
        \<and> set ps =
            {(s, l). s \<in> set (spines (layout clusterCount b))
                     \<and> l \<in> set (leafs (layout clusterCount b)) \<and> clusterId s = clusterId l}
            \<union> {(s, l). s \<in> set (servers (layout clusterCount b))
                     \<and> l \<in> set (leafs (layout clusterCount b)) \<and> groupId l = groupId s}
        \<and> list_all (\<lambda>(n1, n2). (type n1 = Spine \<and> type n2 = Leaf \<and> clusterId n1 = clusterId n2)
                             \<or> (type n1 = Server \<and> type n2 = Leaf \<and> groupId n1 = groupId n2)) ps
        \<and> segmentCount (staticGeo (layout clusterCount b)) = length ps)
   \<and> segmentCount (staticGeo (layout 1 False)) = 64 * 128
   \<and> 64 * 128 = (8192 :: nat)"
proof -
  have "staticGeo (layout clusterCount b)
        = concat (map (\<lambda>(n1, n2). linePoints n1 n2) (meshPairs (layout clusterCount b)))
      \<and> distinct (meshPairs (layout clusterCount b))
      \<and> set (meshPairs (layout clusterCount b)) =
            {(s, l). s \<in> set (spines (layout clusterCount b))
                     \<and> l \<in> set (leafs (layout clusterCount b)) \<and> clusterId s = clusterId l}
            \<union> {(s, l). s \<in> set (servers (layout clusterCount b))
                     \<and> l \<in> set (leafs (layout clusterCount b)) \<and> groupId l = groupId s}
      \<and> list_all (\<lambda>(n1, n2). (type n1 = Spine \<and> type n2 = Leaf \<and> clusterId n1 = clusterId n2)
                             \<or> (type n1 = Server \<and> type n2 = Leaf \<and> groupId n1 = groupId n2))
           (meshPairs (layout clusterCount b))
      \<and> segmentCount (staticGeo (layout clusterCount b)) = length (meshPairs (layout clusterCount b))"
    using staticGeo_closed [of "layout clusterCount b"] distinct_meshPairs_layout [of clusterCount b]
      set_meshPairs [of "layout clusterCount b"] meshPairs_same_group [of clusterCount b]
    by (simp only: segmentCount_flatten simp_thms)
  then have ex: "\<exists>ps. staticGeo (layout clusterCount b) = concat (map (\<lambda>(n1, n2). linePoints n1 n2) ps)
        \<and> distinct ps
        \<and> set ps =
            {(s, l). s \<in> set (spines (layout clusterCount b))
                     \<and> l \<in> set (leafs (layout clusterCount b)) \<and> clusterId s = clusterId l}
            \<union> {(s, l). s \<in> set (servers (layout clusterCount b))
                     \<and> l \<in> set (leafs (layout clusterCount b)) \<and> groupId l = groupId s}
        \<and> list_all (\<lambda>(n1, n2). (type n1 = Spine \<and> type n2 = Leaf \<and> clusterId n1 = clusterId n2)
                             \<or> (type n1 = Server \<and> type n2 = Leaf \<and> groupId n1 = groupId n2)) ps
        \<and> segmentCount (staticGeo (layout clusterCount b)) = length ps"
    by (rule exI)
  have one: "segmentCount (staticGeo (layout 1 False)) = 64 * 128"
    by (simp add: staticGeo_closed length_meshPairs_layout)
  from ex one show ?thesis
    by simp
qed

text \<open>
  Claim C8. With no focus the highlight builder returns \<open>null\<close> and nothing is drawn. For
  a focused spine it emits one segment per leaf with the spine's cluster id (128 segments
  for a spine of the one-cluster topology); for a focused leaf one segment per spine with
  its cluster id followed by one segment per server with its group id; for a focused
  server one segment per leaf with its group id.
\<close>

theorem highlight_segments:
  "activeGeo lay None = None \<and> drawn (activeGeo lay None) = []
   \<and> (type h = Spine \<longrightarrow>
        activeGeo lay (Some h)
          = Some (concat (map (linePoints h) (filter (\<lambda>l. clusterId l = clusterId h) (leafs lay))))
        \<and> segmentCount (drawn (activeGeo lay (Some h)))
            = length (filter (\<lambda>l. clusterId l = clusterId h) (leafs lay)))
   \<and> (type h = Leaf \<longrightarrow>
        activeGeo lay (Some h)
          = Some (concat (map (linePoints h) (filter (\<lambda>s. clusterId s = clusterId h) (spines lay)))
                  @ concat (map (linePoints h) (filter (\<lambda>s. groupId s = groupId h) (servers lay))))
        \<and> segmentCount (drawn (activeGeo lay (Some h)))
            = length (filter (\<lambda>s. clusterId s = clusterId h) (spines lay))
              + length (filter (\<lambda>s. groupId s = groupId h) (servers lay)))
   \<and> (type h = Server \<longrightarrow>
        activeGeo lay (Some h)
          = Some (concat (map (linePoints h) (filter (\<lambda>l. groupId l = groupId h) (leafs lay))))
        \<and> segmentCount (drawn (activeGeo lay (Some h)))
            = length (filter (\<lambda>l. groupId l = groupId h) (leafs lay)))
   \<and> (sp \<in> set (spines (layout 1 b)) \<longrightarrow>
        segmentCount (drawn (activeGeo (layout 1 b) (Some sp))) = 128)"
proof -
  have n: "activeGeo lay None = None \<and> drawn (activeGeo lay None) = []"
    by (simp add: activeGeo_def drawn_def)
  have c: "segmentCount (drawn (activeGeo (layout 1 b) (Some sp))) = 128"
    if "sp \<in> set (spines (layout 1 b))"
  proof -
    from that have "type sp = Spine" "clusterId sp = Some 0"
      by (auto simp: layout_closed in_genSpines)
    then show ?thesis
      by (simp add: activeGeo_closed drawn_def layout_closed count_leafs_cluster
          LEAF_GROUPS_def LEAFS_PER_GROUP_def)
  qed
  from n c show ?thesis
    by (simp add: activeGeo_closed drawn_def)
qed

theorem highlight_segments_witness:
  "type (spineNode 0 0 0) = Spine \<and> spineNode 0 0 0 \<in> set (spines (layout 1 True))
   \<and> segmentCount (drawn (activeGeo (layout 1 True) (Some (spineNode 0 0 0)))) = 128
   \<and> type (leafNode 0 0 0 64) = Leaf
   \<and> segmentCount (drawn (activeGeo (layout 1 True) (Some (leafNode 0 0 0 64)))) = 64 + 64
   \<and> type (serverNode 0 64 0 0 192) = Server
   \<and> segmentCount (drawn (activeGeo (layout 1 True) (Some (serverNode 0 64 0 0 192)))) = 8"
proof -
  have m: "spineNode 0 0 0 \<in> set (spines (layout 1 True))"
    by (simp add: layout_closed in_genSpines SPINE_COUNT_def)
      (rule exI [of _ 0], simp)
  have s: "segmentCount (drawn (activeGeo (layout 1 True) (Some (spineNode 0 0 0)))) = 128"
    using highlight_segments [of "layout 1 True" "spineNode 0 0 0" "spineNode 0 0 0" True] m
    by blast
  have tl: "type (leafNode 0 0 0 64) = Leaf"
    by simp
  have "segmentCount (drawn (activeGeo (layout 1 True) (Some (leafNode 0 0 0 64))))
      = length (filter (\<lambda>s. clusterId s = clusterId (leafNode 0 0 0 64)) (spines (layout 1 True)))
        + length (filter (\<lambda>s. groupId s = groupId (leafNode 0 0 0 64)) (servers (layout 1 True)))"
    using highlight_segments [of "layout 1 True" "leafNode 0 0 0 64" "spineNode 0 0 0" True] tl
    by blast
  then have l: "segmentCount (drawn (activeGeo (layout 1 True) (Some (leafNode 0 0 0 64)))) = 64 + 64"
    by (simp add: layout_closed count_spines_cluster count_servers_group serverCountOf_def
        SPINE_COUNT_def LEAF_GROUPS_def SERVERS_PER_GROUP_STD_def)
  have tv: "type (serverNode 0 64 0 0 192) = Server"
    by simp
  have "segmentCount (drawn (activeGeo (layout 1 True) (Some (serverNode 0 64 0 0 192))))
      = length (filter (\<lambda>l. groupId l = groupId (serverNode 0 64 0 0 192)) (leafs (layout 1 True)))"
    using highlight_segments [of "layout 1 True" "serverNode 0 64 0 0 192" "spineNode 0 0 0" True] tv
    by blast
  then have v: "segmentCount (drawn (activeGeo (layout 1 True) (Some (serverNode 0 64 0 0 192)))) = 8"
    by (simp add: layout_closed count_leafs_group LEAF_GROUPS_def LEAFS_PER_GROUP_def)
  from m s l v show ?thesis
    by simp
qed

text \<open>
  Claim C3, as amended. The highlight builder never looks the focused node up in the
  current topology. For every focused node, stale or not, it returns a geometry (never
  \<open>null\<close>, never an error) that depends only on the node's own type, cluster id, group id
  and position, not on its id or label, and that holds one segment for each node of the
  current topology matching the focused node's cluster id or group id as its type
  prescribes. Focus is cleared only when the focused node itself is \<open>null\<close>.
\<close>

theorem highlight_ignores_staleness:
  "activeGeo lay (Some h) \<noteq> None
   \<and> activeGeo lay (Some (h\<lparr>id_n := i, label := s\<rparr>)) = activeGeo lay (Some h)
   \<and> segmentCount (drawn (activeGeo lay (Some h)))
       = (case type h of
            Spine \<Rightarrow> length (filter (\<lambda>l. clusterId l = clusterId h) (leafs lay))
          | Leaf \<Rightarrow> length (filter (\<lambda>s. clusterId s = clusterId h) (spines lay))
                    + length (filter (\<lambda>s. groupId s = groupId h) (servers lay))
          | Server \<Rightarrow> length (filter (\<lambda>l. groupId l = groupId h) (leafs lay)))
   \<and> (activeGeo lay focus = None \<longleftrightarrow> focus = None)"
proof -
  have lp: "linePoints (h\<lparr>id_n := i, label := s\<rparr>) = linePoints h"
    by (simp add: linePoints_def fun_eq_iff)
  have a: "activeGeo lay (Some (h\<lparr>id_n := i, label := s\<rparr>)) = activeGeo lay (Some h)"
    by (cases "type h") (simp_all add: activeGeo_closed lp)
  have c: "segmentCount (drawn (activeGeo lay (Some h)))
       = (case type h of
            Spine \<Rightarrow> length (filter (\<lambda>l. clusterId l = clusterId h) (leafs lay))
          | Leaf \<Rightarrow> length (filter (\<lambda>s. clusterId s = clusterId h) (spines lay))
                    + length (filter (\<lambda>s. groupId s = groupId h) (servers lay))
          | Server \<Rightarrow> length (filter (\<lambda>l. groupId l = groupId h) (leafs lay)))"
    by (cases "type h") (simp_all add: activeGeo_closed drawn_def)
  have f: "activeGeo lay focus = None \<longleftrightarrow> focus = None"
    by (cases focus) (simp_all add: activeGeo_def)
  from a c f show ?thesis
    by (simp add: activeGeo_closed)
qed

text \<open>
  The claim as stated fails. Take the first server of the one-cluster topology with
  servers on, and switch servers off: no node of the new topology has its id and type,
  yet the builder draws the 8 segments to the leafs of group 0 instead of clearing focus.
\<close>

theorem highlight_stale_counterexample:
  "serverNode 0 64 0 0 192 \<in> set (servers (layout 1 True))
   \<and> \<not> present (layout 1 False) (serverNode 0 64 0 0 192)
   \<and> activeGeo (layout 1 False) (Some (serverNode 0 64 0 0 192)) \<noteq> activeGeo (layout 1 False) None
   \<and> drawn (activeGeo (layout 1 False) (Some (serverNode 0 64 0 0 192))) \<noteq> []
   \<and> segmentCount (drawn (activeGeo (layout 1 False) (Some (serverNode 0 64 0 0 192)))) = 8"
proof -
  have m: "serverNode 0 64 0 0 192 \<in> set (servers (layout 1 True))"
    by (simp add: layout_closed in_genServers baseZOf_def NODES_PER_CLUSTER_def SPINE_COUNT_def
        LEAF_GROUPS_def LEAFS_PER_GROUP_def)
      (rule exI [of _ 0], simp add: serverCountOf_def SERVERS_PER_GROUP_STD_def, rule exI [of _ 0], simp)
  have p: "\<not> present (layout 1 False) (serverNode 0 64 0 0 192)"
    by (auto simp: present_def list_ex_iff layout_closed in_genSpines in_genLeafs)
  have c: "segmentCount (drawn (activeGeo (layout 1 False) (Some (serverNode 0 64 0 0 192)))) = 8"
    by (simp add: activeGeo_closed drawn_def layout_closed count_leafs_group LEAF_GROUPS_def
        LEAFS_PER_GROUP_def)
  then have d: "drawn (activeGeo (layout 1 False) (Some (serverNode 0 64 0 0 192))) \<noteq> []"
    by (auto simp: segmentCount_def)
  have n: "activeGeo (layout 1 False) (Some (serverNode 0 64 0 0 192)) \<noteq> activeGeo (layout 1 False) None"
    by (simp add: activeGeo_def)
  from m p c d n show ?thesis
    by simp
qed

section \<open>The escape-route builder in closed form\<close>

lemma coords_nth_js: "k < length cp \<Longrightarrow> coords (nth_js cp k) = Inr (xyz (cp ! k))"
  by (simp add: coords_def nth_js_def xyz_def)

lemma curveLoop_closed_aux:
  "curveLoop cp k pts =
     Inr (pts @ concat (map (\<lambda>j. xyz (cp ! j) @ xyz (cp ! (j + 1))) [k ..< length cp - 1]))"
proof (induction cp k pts rule: curveLoop.induct)
  case (1 cp k pts)
  show ?case
  proof (cases "k < length cp - 1")
    case True
    then have a: "coords (nth_js cp k) = Inr (xyz (cp ! k))"
      and b: "coords (nth_js cp (k + 1)) = Inr (xyz (cp ! (k + 1)))"
      by (simp_all add: coords_nth_js)
    have "curveLoop cp k pts = curveLoop cp (k + 1) ((pts @ xyz (cp ! k)) @ xyz (cp ! (k + 1)))"
      by (subst curveLoop.simps) (simp only: True a b if_True sum.case)
    also have "\<dots> = Inr (((pts @ xyz (cp ! k)) @ xyz (cp ! (k + 1)))
        @ concat (map (\<lambda>j. xyz (cp ! j) @ xyz (cp ! (j + 1))) [k + 1 ..< length cp - 1]))"
      by (rule "1.IH" [OF True a b])
    finally show ?thesis
      using True by (simp add: upt_conv_Cons)
  next
    case False
    then show ?thesis
      by (subst curveLoop.simps) simp
  qed
qed

lemma curveLoop_closed: "curveLoop cp 0 pts = Inr (pts @ curveSegments cp)"
  by (simp add: curveLoop_closed_aux curveSegments_def)

lemma pairLoop_stop: "\<not> i < LEAFS_PER_GROUP \<Longrightarrow> pairLoop lay a b i pts = Inr pts"
  by (subst pairLoop.simps) simp

lemma pairLoop_step:
  "i < LEAFS_PER_GROUP \<Longrightarrow>
   pairLoop lay a b i pts = pairLoop lay a b (i + 1) (pts @ pairSegments lay (a + i) (b + i))"
  by (subst pairLoop.simps)
    (simp add: Let_def nth_js_def positionOf_def curveLoop_closed pairSegments_def)

lemma pairLoop_closed_aux:
  "pairLoop lay a b i pts =
     Inr (pts @ concat (map (\<lambda>j. pairSegments lay (a + j) (b + j)) [i ..< LEAFS_PER_GROUP]))"
proof (induction "LEAFS_PER_GROUP - i" arbitrary: i pts)
  case 0
  then show ?case
    by (simp add: pairLoop_stop)
next
  case (Suc n)
  then have lt: "i < LEAFS_PER_GROUP" and n: "n = LEAFS_PER_GROUP - (i + 1)"
    by simp_all
  show ?case
    using Suc.hyps(1) [OF n, of "pts @ pairSegments lay (a + i) (b + i)"]
    by (simp add: pairLoop_step [OF lt] upt_conv_Cons [OF lt])
qed

lemma escapeLoop_stop:
  "\<not> c < nat \<lceil>clusterCount - 1\<rceil> \<Longrightarrow> escapeLoop lay clusterCount c pts = Inr pts"
  using of_nat_less_clusterTotal [of c "clusterCount - 1"]
  by (subst escapeLoop.simps) (simp add: clusterTotal_def)

lemma escapeLoop_step:
  "c < nat \<lceil>clusterCount - 1\<rceil> \<Longrightarrow>
   escapeLoop lay clusterCount c pts =
     escapeLoop lay clusterCount (c + 1)
       (pts @ concat (map (\<lambda>i. pairSegments lay (c * 128 + 120 + i) ((c + 1) * 128 + 120 + i))
                        [0 ..< 8]))"
  using of_nat_less_clusterTotal [of c "clusterCount - 1"]
  by (subst escapeLoop.simps)
    (simp add: clusterTotal_def Let_def pairLoop_closed_aux LEAF_GROUPS_def LEAFS_PER_GROUP_def)

lemma escapeLoop_closed_aux:
  "escapeLoop lay clusterCount c pts =
     Inr (pts @ concat (map (\<lambda>c'. concat (map (\<lambda>i. pairSegments lay (c' * 128 + 120 + i)
                                                     ((c' + 1) * 128 + 120 + i)) [0 ..< 8]))
                          [c ..< nat \<lceil>clusterCount - 1\<rceil>]))"
proof (induction "nat \<lceil>clusterCount - 1\<rceil> - c" arbitrary: c pts)
  case 0
  then show ?case
    by (simp add: escapeLoop_stop)
next
  case (Suc n)
  then have lt: "c < nat \<lceil>clusterCount - 1\<rceil>" and n: "n = nat \<lceil>clusterCount - 1\<rceil> - (c + 1)"
    by simp_all
  show ?case
    using Suc.hyps(1) [OF n, of "pts @ concat (map (\<lambda>i. pairSegments lay (c * 128 + 120 + i)
                                                  ((c + 1) * 128 + 120 + i)) [0 ..< 8])"] lt
    by (simp add: escapeLoop_step [OF lt] upt_conv_Cons)
qed

lemma escapeGeometry_closed:
  "escapeGeometry lay active clusterCount =
     Inr (if \<not> active \<or> clusterCount < 2 then None
          else if escapePoints lay clusterCount = [] then None
          else Some (escapePoints lay clusterCount))"
  by (simp add: escapeGeometry_def escapeLoop_closed_aux escapePoints_def)

lemma length_xyz [simp]: "length (xyz v) = 3"
  by (simp add: xyz_def)

lemma length_curveSegments: "length (curveSegments cp) = 6 * (length cp - 1)"
  by (simp add: curveSegments_def length_concat comp_def sum_list_const)

lemma length_curveBetween [simp]: "length (curveBetween a b) = 21"
  by (simp add: curveBetween_def getPoints_def Let_def)

lemma segmentCount_curve [simp]: "segmentCount (curveSegments (curveBetween a b)) = 20"
  by (simp add: segmentCount_def length_curveSegments)

lemma nth_concat_uniform:
  "\<forall>xs \<in> set xss. length xs = m \<Longrightarrow> i < length xss \<Longrightarrow> j < m \<Longrightarrow>
   concat xss ! (i * m + j) = xss ! i ! j"
proof (induction xss arbitrary: i)
  case Nil
  then show ?case by simp
next
  case (Cons xs xss)
  show ?case
  proof (cases i)
    case 0
    with Cons.prems show ?thesis
      by (simp add: nth_append)
  next
    case (Suc i')
    with Cons.prems have "concat xss ! (i' * m + j) = xss ! i' ! j"
      by (intro Cons.IH) simp_all
    with Suc Cons.prems show ?thesis
      by (simp add: nth_append)
  qed
qed

lemma nth_clusterLeafs:
  assumes "g < LEAF_GROUPS" "l < LEAFS_PER_GROUP"
  shows "clusterLeafs c gid ! (g * LEAFS_PER_GROUP + l) = leafNode c g l (gid + g * LEAFS_PER_GROUP + l)"
proof -
  have "clusterLeafs c gid ! (g * LEAFS_PER_GROUP + l)
      = map (\<lambda>g. groupLeafs c g (gid + g * LEAFS_PER_GROUP)) [0 ..< LEAF_GROUPS] ! g ! l"
    unfolding clusterLeafs_def
    by (rule nth_concat_uniform) (use assms in auto)
  also have "\<dots> = leafNode c g l (gid + g * LEAFS_PER_GROUP + l)"
    using assms by (simp add: groupLeafs_def)
  finally show ?thesis .
qed

lemma nth_genLeafs:
  assumes "c < n" "g < LEAF_GROUPS" "l < LEAFS_PER_GROUP"
  shows "genLeafs n ! (c * (LEAF_GROUPS * LEAFS_PER_GROUP) + (g * LEAFS_PER_GROUP + l))
    = leafNode c g l (c * NODES_PER_CLUSTER + SPINE_COUNT + g * LEAFS_PER_GROUP + l)"
proof -
  have lt: "g * LEAFS_PER_GROUP + l < LEAF_GROUPS * LEAFS_PER_GROUP"
    using assms(2, 3) by (simp add: LEAF_GROUPS_def LEAFS_PER_GROUP_def)
  have "genLeafs n ! (c * (LEAF_GROUPS * LEAFS_PER_GROUP) + (g * LEAFS_PER_GROUP + l))
      = map (\<lambda>c. clusterLeafs c (c * NODES_PER_CLUSTER + SPINE_COUNT)) [0 ..< n] ! c
          ! (g * LEAFS_PER_GROUP + l)"
    unfolding genLeafs_def
    by (rule nth_concat_uniform) (use assms(1) lt in auto)
  also have "\<dots> = leafNode c g l (c * NODES_PER_CLUSTER + SPINE_COUNT + g * LEAFS_PER_GROUP + l)"
    using assms by (simp add: nth_clusterLeafs)
  finally show ?thesis .
qed

lemma nth_last_group:
  assumes "c < clusterTotal clusterCount" "i < 8"
  shows "leafs (layout clusterCount b) ! (c * 128 + 15 * 8 + i) = leafNode c 15 i (c * 192 + 184 + i)"
  using nth_genLeafs [of c "clusterTotal clusterCount" 15 i] assms
  by (simp add: layout_closed LEAF_GROUPS_def LEAFS_PER_GROUP_def NODES_PER_CLUSTER_def
      SPINE_COUNT_def ac_simps)

lemma length_leafs_layout:
  "length (leafs (layout clusterCount b)) = 128 * clusterTotal clusterCount"
  by (simp add: layout_closed length_genLeafs LEAF_GROUPS_def LEAFS_PER_GROUP_def)

lemma pairSegments_out_of_range:
  "length (leafs lay) \<le> idxA \<or> length (leafs lay) \<le> idxB \<Longrightarrow> pairSegments lay idxA idxB = []"
  by (auto simp: pairSegments_def)

lemma escapePoints_short:
  assumes "length (leafs lay) \<le> 248"
  shows "escapePoints lay clusterCount = []"
proof -
  have "pairSegments lay (c * 128 + 120 + i) ((c + 1) * 128 + 120 + i) = []" for c i
    by (rule pairSegments_out_of_range) (use assms in simp)
  then show ?thesis
    by (simp add: escapePoints_def)
qed

lemma escapePoints_two_clusters:
  assumes "clusterCount = 2 \<or> clusterCount = 3"
  shows "escapePoints (layout 2 b) clusterCount
    = concat (map (\<lambda>i. curveSegments (curveBetween
                            (position (leafs (layout 2 b) ! (0 * 128 + 15 * 8 + i)))
                            (position (leafs (layout 2 b) ! (1 * 128 + 15 * 8 + i)))))
                [0 ..< 8])"
proof -
  have len: "length (leafs (layout 2 b)) = 256"
    by (simp add: length_leafs_layout)
  have first: "concat (map (\<lambda>i. pairSegments (layout 2 b) (0 * 128 + 120 + i) ((0 + 1) * 128 + 120 + i))
                        [0 ..< 8])
      = concat (map (\<lambda>i. curveSegments (curveBetween
                            (position (leafs (layout 2 b) ! (0 * 128 + 15 * 8 + i)))
                            (position (leafs (layout 2 b) ! (1 * 128 + 15 * 8 + i))))) [0 ..< 8])"
    by (rule arg_cong [where f = concat], rule map_cong [OF refl]) (simp add: pairSegments_def len)
  have second: "concat (map (\<lambda>i. pairSegments (layout 2 b) (1 * 128 + 120 + i) ((1 + 1) * 128 + 120 + i))
                         [0 ..< 8]) = []"
    by (simp add: pairSegments_def len)
  from assms show ?thesis
  proof
    assume "clusterCount = 2"
    then have "nat \<lceil>clusterCount - 1\<rceil> = 1"
      by simp
    then have "[0 ..< nat \<lceil>clusterCount - 1\<rceil>] = [0]"
      by simp
    then show ?thesis
      unfolding escapePoints_def using first by simp
  next
    assume "clusterCount = 3"
    then have "nat \<lceil>clusterCount - 1\<rceil> = 2"
      by simp
    then have "[0 ..< nat \<lceil>clusterCount - 1\<rceil>] = [0, 1]"
      by (simp add: upt_rec)
    then show ?thesis
      unfolding escapePoints_def using first second by simp
  qed
qed

lemma length_eight_curves:
  "length (concat (map (\<lambda>i. curveSegments (curveBetween (A i) (B i))) [0 ..< 8])) = 960"
  by (simp add: length_concat comp_def length_curveSegments sum_list_const)

lemma nonempty_of_length: "length xs = 960 \<Longrightarrow> xs \<noteq> []"
  by auto

lemma escapeGeometry_two_clusters:
  assumes "clusterCount = 2 \<or> clusterCount = 3"
  shows "escapeGeometry (layout 2 b) True clusterCount
    = Inr (Some (concat (map (\<lambda>i. curveSegments (curveBetween
                            (position (leafs (layout 2 b) ! (0 * 128 + 15 * 8 + i)))
                            (position (leafs (layout 2 b) ! (1 * 128 + 15 * 8 + i)))))
                [0 ..< 8])))"
proof -
  have ne: "concat (map (\<lambda>i. curveSegments (curveBetween
                            (position (leafs (layout 2 b) ! (0 * 128 + 15 * 8 + i)))
                            (position (leafs (layout 2 b) ! (1 * 128 + 15 * 8 + i)))))
                [0 ..< 8]) \<noteq> []"
    by (rule nonempty_of_length [OF length_eight_curves])
  from assms have "\<not> clusterCount < 2"
    by auto
  then show ?thesis
    using ne by (simp only: escapeGeometry_closed escapePoints_two_clusters [OF assms] simp_thms if_False)
qed

lemma getPoint_ends: "getPoint v0 v1 v2 0 = v0" "getPoint v0 v1 v2 1 = v2"
  by (simp_all add: getPoint_def QuadraticBezier_def)

lemma nth_curveBetween:
  assumes "k < 21"
  shows "curveBetween a e ! k = getPoint a \<lparr> x_v = (x_v a + x_v e) / 2, y_v = (y_v a + y_v e) / 2 - 25,
                     z_v = (z_v a + z_v e) / 2 \<rparr> e (of_nat k / 20)"
  using assms by (simp add: curveBetween_def getPoints_def Let_def)

lemma curveSegments_curveBetween:
  "curveSegments (curveBetween a e) = concat (map (\<lambda>k.
         xyz (getPoint a \<lparr> x_v = (x_v a + x_v e) / 2, y_v = (y_v a + y_v e) / 2 - 25,
                     z_v = (z_v a + z_v e) / 2 \<rparr> e (of_nat k / 20))
         @ xyz (getPoint a \<lparr> x_v = (x_v a + x_v e) / 2, y_v = (y_v a + y_v e) / 2 - 25,
                     z_v = (z_v a + z_v e) / 2 \<rparr> e (of_nat (k + 1) / 20)))
       [0 ..< 20])"
proof -
  have "map (\<lambda>k. xyz (curveBetween a e ! k) @ xyz (curveBetween a e ! (k + 1))) [0 ..< 20]
      = map (\<lambda>k.
         xyz (getPoint a \<lparr> x_v = (x_v a + x_v e) / 2, y_v = (y_v a + y_v e) / 2 - 25,
                     z_v = (z_v a + z_v e) / 2 \<rparr> e (of_nat k / 20))
         @ xyz (getPoint a \<lparr> x_v = (x_v a + x_v e) / 2, y_v = (y_v a + y_v e) / 2 - 25,
                     z_v = (z_v a + z_v e) / 2 \<rparr> e (of_nat (k + 1) / 20)))
       [0 ..< 20]"
  proof (rule map_cong [OF refl])
    fix k assume "k \<in> set [0 ..< 20]"
    then have "k < 21" "k + 1 < 21"
      by simp_all
    then show "xyz (curveBetween a e ! k) @ xyz (curveBetween a e ! (k + 1))
        = xyz (getPoint a \<lparr> x_v = (x_v a + x_v e) / 2, y_v = (y_v a + y_v e) / 2 - 25,
                     z_v = (z_v a + z_v e) / 2 \<rparr> e (of_nat k / 20))
          @ xyz (getPoint a \<lparr> x_v = (x_v a + x_v e) / 2, y_v = (y_v a + y_v e) / 2 - 25,
                     z_v = (z_v a + z_v e) / 2 \<rparr> e (of_nat (k + 1) / 20))"
      by (simp only: nth_curveBetween)
  qed
  note samples = this
  have n: "length (curveBetween a e) - 1 = 20"
    by simp
  show ?thesis
    unfolding curveSegments_def n
    by (rule arg_cong [where f = concat]) (rule samples)
qed

lemma curveBetween_nonempty: "curveBetween a e \<noteq> []"
proof
  assume "curveBetween a e = []"
  then have "length (curveBetween a e) = 0"
    by (simp only: list.size)
  then show False
    by simp
qed

lemma hd_curveBetween: "hd (curveBetween a e) = a"
proof -
  have "hd (curveBetween a e) = curveBetween a e ! 0"
    by (rule hd_conv_nth) (rule curveBetween_nonempty)
  then show ?thesis
    by (simp add: nth_curveBetween getPoint_ends)
qed

lemma last_curveBetween: "last (curveBetween a e) = e"
proof -
  have "last (curveBetween a e) = curveBetween a e ! (length (curveBetween a e) - 1)"
    by (rule last_conv_nth) (rule curveBetween_nonempty)
  then show ?thesis
    by (simp add: nth_curveBetween getPoint_ends)
qed

lemma position_last_group:
  "position (leafNode c 15 i gid)
     = \<lparr> x_v = 75, y_v = - 5, z_v = (of_nat i - 7 / 2) * 2 - 60 * of_nat c \<rparr>"
  by (simp add: leafNode_def Let_def LEAF_GROUPS_def LEAFS_PER_GROUP_def GROUP_SPACING_def
      LEAF_Y_def LEAF_LOCAL_SPACING_Z_def CLUSTER_SPACING_Z_def)

lemma position_escape_leafs:
  assumes "i < 8"
  shows "position (leafs (layout 2 b) ! (0 * 128 + 15 * 8 + i)) = \<lparr> x_v = 75, y_v = - 5, z_v = (of_nat i - 7 / 2) * 2 \<rparr>"
    and "position (leafs (layout 2 b) ! (1 * 128 + 15 * 8 + i)) = \<lparr> x_v = 75, y_v = - 5, z_v = (of_nat i - 7 / 2) * 2 - 60 \<rparr>"
  using nth_last_group [of 0 2 i b] nth_last_group [of 1 2 i b] assms
  by (simp_all add: position_last_group)

lemma escape_pair_curve:
  assumes "i < 8"
  shows "curveSegments (curveBetween (position (leafs (layout 2 b) ! (0 * 128 + 15 * 8 + i))) (position (leafs (layout 2 b) ! (1 * 128 + 15 * 8 + i)))) = concat (map (\<lambda>k.
           xyz (getPoint \<lparr> x_v = 75, y_v = - 5, z_v = (of_nat i - 7 / 2) * 2 \<rparr>
                         \<lparr> x_v = 75, y_v = - 30, z_v = (of_nat i - 7 / 2) * 2 - 30 \<rparr>
                         \<lparr> x_v = 75, y_v = - 5, z_v = (of_nat i - 7 / 2) * 2 - 60 \<rparr> (of_nat k / 20))
           @ xyz (getPoint \<lparr> x_v = 75, y_v = - 5, z_v = (of_nat i - 7 / 2) * 2 \<rparr>
                           \<lparr> x_v = 75, y_v = - 30, z_v = (of_nat i - 7 / 2) * 2 - 30 \<rparr>
                           \<lparr> x_v = 75, y_v = - 5, z_v = (of_nat i - 7 / 2) * 2 - 60 \<rparr> (of_nat (k + 1) / 20)))
         [0 ..< 20])"
proof -
  have ctrl: "\<lparr> x_v = (75 + 75) / 2, y_v = (- 5 + - 5) / 2 - 25,
               z_v = ((of_nat i - 7 / 2) * 2 + ((of_nat i - 7 / 2) * 2 - 60)) / 2 \<rparr>
      = (\<lparr> x_v = 75, y_v = - 30, z_v = (of_nat i - 7 / 2) * 2 - 30 \<rparr> :: Vector3)"
    by (simp add: field_simps)
  show ?thesis
    unfolding position_escape_leafs [OF assms] curveSegments_curveBetween
    by (simp only: Vector3.simps ctrl)
qed

lemma escape_pair_middle:
  "curveBetween (\<lparr> x_v = 75, y_v = - 5, z_v = (of_nat i - 7 / 2) * 2 \<rparr>) (\<lparr> x_v = 75, y_v = - 5, z_v = (of_nat i - 7 / 2) * 2 - 60 \<rparr>) ! 10 = \<lparr> x_v = 75, y_v = - 35 / 2, z_v = (of_nat i - 7 / 2) * 2 - 30 \<rparr>"
  by (simp add: nth_curveBetween getPoint_def QuadraticBezier_def field_simps)

section \<open>Claims about the escape-route builder\<close>

text \<open>
  Claim C5. The escape-route builder returns \<open>null\<close> whenever the mode is off or the
  cluster count is below 2. Enabled on the two-cluster topology with cluster count 2 it
  produces the curves of exactly 8 leaf pairs: for each \<open>i < 8\<close> the leaf at index
  \<open>0 * 128 + 15 * 8 + i\<close>, which is leaf \<open>i\<close> of group 15 of cluster 0, is joined to the leaf
  at index \<open>1 * 128 + 15 * 8 + i\<close>, which is leaf \<open>i\<close> of group 15 of cluster 1. Every pair is
  drawn as 20 straight sub-segments (at least 16), 160 segments in total (at least 128).
  The polyline of pair \<open>i\<close> starts at the position \<open>(75, -5, 2 * i - 7)\<close> of the leaf of
  cluster 0, ends at the position \<open>(75, -5, 2 * i - 67)\<close> of the leaf of cluster 1 and dips
  to height \<open>-17.5\<close> half way; the whole buffer is given point by point, as the samples of
  the Bezier curve with control point \<open>(75, -30, 2 * i - 37)\<close>.
\<close>

theorem escape_routes:
  "((\<not> active \<or> clusterCount < 2) \<longrightarrow> escapeGeometry lay active clusterCount = Inr None)
   \<and> escapeGeometry (layout 2 b) True 2
       = Inr (Some (concat (map (\<lambda>i. curveSegments (curveBetween
                              (position (leafs (layout 2 b) ! (0 * 128 + 15 * 8 + i)))
                              (position (leafs (layout 2 b) ! (1 * 128 + 15 * 8 + i)))))
                      [0 ..< 8])))
   \<and> list_all (\<lambda>i. (\<exists>ida. leafs (layout 2 b) ! (0 * 128 + 15 * 8 + i) = leafNode 0 15 i ida)
                  \<and> (\<exists>idb. leafs (layout 2 b) ! (1 * 128 + 15 * 8 + i) = leafNode 1 15 i idb))
        [0 ..< 8]
   \<and> list_all (\<lambda>i. segmentCount (curveSegments (curveBetween
                              (position (leafs (layout 2 b) ! (0 * 128 + 15 * 8 + i)))
                              (position (leafs (layout 2 b) ! (1 * 128 + 15 * 8 + i))))) = 20)
        [0 ..< 8]
   \<and> (\<exists>pts. escapeGeometry (layout 2 b) True 2 = Inr (Some pts) \<and> segmentCount pts = 8 * 20)
   \<and> (16 :: nat) \<le> 20 \<and> (128 :: nat) \<le> 8 * 20
   \<and> escapeGeometry (layout 2 b) True 2
       = Inr (Some (concat (map (\<lambda>i. concat (map (\<lambda>k.
           xyz (getPoint \<lparr> x_v = 75, y_v = - 5, z_v = (of_nat i - 7 / 2) * 2 \<rparr>
                         \<lparr> x_v = 75, y_v = - 30, z_v = (of_nat i - 7 / 2) * 2 - 30 \<rparr>
                         \<lparr> x_v = 75, y_v = - 5, z_v = (of_nat i - 7 / 2) * 2 - 60 \<rparr> (of_nat k / 20))
           @ xyz (getPoint \<lparr> x_v = 75, y_v = - 5, z_v = (of_nat i - 7 / 2) * 2 \<rparr>
                           \<lparr> x_v = 75, y_v = - 30, z_v = (of_nat i - 7 / 2) * 2 - 30 \<rparr>
                           \<lparr> x_v = 75, y_v = - 5, z_v = (of_nat i - 7 / 2) * 2 - 60 \<rparr> (of_nat (k + 1) / 20)))
         [0 ..< 20])) [0 ..< 8])))
   \<and> list_all (\<lambda>i. position (leafs (layout 2 b) ! (0 * 128 + 15 * 8 + i)) = \<lparr> x_v = 75, y_v = - 5, z_v = (of_nat i - 7 / 2) * 2 \<rparr>
          \<and> position (leafs (layout 2 b) ! (1 * 128 + 15 * 8 + i)) = \<lparr> x_v = 75, y_v = - 5, z_v = (of_nat i - 7 / 2) * 2 - 60 \<rparr>
          \<and> hd (curveBetween (position (leafs (layout 2 b) ! (0 * 128 + 15 * 8 + i))) (position (leafs (layout 2 b) ! (1 * 128 + 15 * 8 + i)))) = position (leafs (layout 2 b) ! (0 * 128 + 15 * 8 + i))
          \<and> last (curveBetween (position (leafs (layout 2 b) ! (0 * 128 + 15 * 8 + i))) (position (leafs (layout 2 b) ! (1 * 128 + 15 * 8 + i)))) = position (leafs (layout 2 b) ! (1 * 128 + 15 * 8 + i))
          \<and> curveBetween (position (leafs (layout 2 b) ! (0 * 128 + 15 * 8 + i))) (position (leafs (layout 2 b) ! (1 * 128 + 15 * 8 + i))) ! 10 = \<lparr> x_v = 75, y_v = - 35 / 2, z_v = (of_nat i - 7 / 2) * 2 - 30 \<rparr>) [0 ..< 8]"
proof -
  have off: "(\<not> active \<or> clusterCount < 2) \<longrightarrow> escapeGeometry lay active clusterCount = Inr None"
    by (simp add: escapeGeometry_closed)
  have two: "escapeGeometry (layout 2 b) True 2
       = Inr (Some (concat (map (\<lambda>i. curveSegments (curveBetween
                              (position (leafs (layout 2 b) ! (0 * 128 + 15 * 8 + i)))
                              (position (leafs (layout 2 b) ! (1 * 128 + 15 * 8 + i)))))
                      [0 ..< 8])))"
    by (rule escapeGeometry_two_clusters) simp
  have pairs: "list_all (\<lambda>i. (\<exists>ida. leafs (layout 2 b) ! (0 * 128 + 15 * 8 + i) = leafNode 0 15 i ida)
                  \<and> (\<exists>idb. leafs (layout 2 b) ! (1 * 128 + 15 * 8 + i) = leafNode 1 15 i idb))
        [0 ..< 8]"
    unfolding list_all_iff
  proof
    fix i assume "i \<in> set [0 ..< 8]"
    then have i: "i < 8" by simp
    show "(\<exists>ida. leafs (layout 2 b) ! (0 * 128 + 15 * 8 + i) = leafNode 0 15 i ida)
        \<and> (\<exists>idb. leafs (layout 2 b) ! (1 * 128 + 15 * 8 + i) = leafNode 1 15 i idb)"
      using nth_last_group [of 0 2 i b] nth_last_group [of 1 2 i b] i by auto
  qed
  have each: "list_all (\<lambda>i. segmentCount (curveSegments (curveBetween
                              (position (leafs (layout 2 b) ! (0 * 128 + 15 * 8 + i)))
                              (position (leafs (layout 2 b) ! (1 * 128 + 15 * 8 + i))))) = 20)
        [0 ..< 8]"
    by (simp add: list_all_iff)
  have total: "\<exists>pts. escapeGeometry (layout 2 b) True 2 = Inr (Some pts) \<and> segmentCount pts = 8 * 20"
    using two length_eight_curves
      [of "\<lambda>i. position (leafs (layout 2 b) ! (0 * 128 + 15 * 8 + i))"
          "\<lambda>i. position (leafs (layout 2 b) ! (1 * 128 + 15 * 8 + i))"]
    by (simp add: segmentCount_def)
  have expl: "escapeGeometry (layout 2 b) True 2
       = Inr (Some (concat (map (\<lambda>i. concat (map (\<lambda>k.
           xyz (getPoint \<lparr> x_v = 75, y_v = - 5, z_v = (of_nat i - 7 / 2) * 2 \<rparr>
                         \<lparr> x_v = 75, y_v = - 30, z_v = (of_nat i - 7 / 2) * 2 - 30 \<rparr>
                         \<lparr> x_v = 75, y_v = - 5, z_v = (of_nat i - 7 / 2) * 2 - 60 \<rparr> (of_nat k / 20))
           @ xyz (getPoint \<lparr> x_v = 75, y_v = - 5, z_v = (of_nat i - 7 / 2) * 2 \<rparr>
                           \<lparr> x_v = 75, y_v = - 30, z_v = (of_nat i - 7 / 2) * 2 - 30 \<rparr>
                           \<lparr> x_v = 75, y_v = - 5, z_v = (of_nat i - 7 / 2) * 2 - 60 \<rparr> (of_nat (k + 1) / 20)))
         [0 ..< 20])) [0 ..< 8])))"
  proof -
    have "map (\<lambda>i. curveSegments (curveBetween (position (leafs (layout 2 b) ! (0 * 128 + 15 * 8 + i))) (position (leafs (layout 2 b) ! (1 * 128 + 15 * 8 + i))))) [0 ..< 8]
        = map (\<lambda>i. concat (map (\<lambda>k.
           xyz (getPoint \<lparr> x_v = 75, y_v = - 5, z_v = (of_nat i - 7 / 2) * 2 \<rparr>
                         \<lparr> x_v = 75, y_v = - 30, z_v = (of_nat i - 7 / 2) * 2 - 30 \<rparr>
                         \<lparr> x_v = 75, y_v = - 5, z_v = (of_nat i - 7 / 2) * 2 - 60 \<rparr> (of_nat k / 20))
           @ xyz (getPoint \<lparr> x_v = 75, y_v = - 5, z_v = (of_nat i - 7 / 2) * 2 \<rparr>
                           \<lparr> x_v = 75, y_v = - 30, z_v = (of_nat i - 7 / 2) * 2 - 30 \<rparr>
                           \<lparr> x_v = 75, y_v = - 5, z_v = (of_nat i - 7 / 2) * 2 - 60 \<rparr> (of_nat (k + 1) / 20)))
         [0 ..< 20])) [0 ..< 8]"
      by (rule map_cong [OF refl], rule escape_pair_curve) simp
    then show ?thesis
      by (simp only: two)
  qed
  have ends: "list_all (\<lambda>i. position (leafs (layout 2 b) ! (0 * 128 + 15 * 8 + i)) = \<lparr> x_v = 75, y_v = - 5, z_v = (of_nat i - 7 / 2) * 2 \<rparr>
          \<and> position (leafs (layout 2 b) ! (1 * 128 + 15 * 8 + i)) = \<lparr> x_v = 75, y_v = - 5, z_v = (of_nat i - 7 / 2) * 2 - 60 \<rparr>
          \<and> hd (curveBetween (position (leafs (layout 2 b) ! (0 * 128 + 15 * 8 + i))) (position (leafs (layout 2 b) ! (1 * 128 + 15 * 8 + i)))) = position (leafs (layout 2 b) ! (0 * 128 + 15 * 8 + i))
          \<and> last (curveBetween (position (leafs (layout 2 b) ! (0 * 128 + 15 * 8 + i))) (position (leafs (layout 2 b) ! (1 * 128 + 15 * 8 + i)))) = position (leafs (layout 2 b) ! (1 * 128 + 15 * 8 + i))
          \<and> curveBetween (position (leafs (layout 2 b) ! (0 * 128 + 15 * 8 + i))) (position (leafs (layout 2 b) ! (1 * 128 + 15 * 8 + i))) ! 10 = \<lparr> x_v = 75, y_v = - 35 / 2, z_v = (of_nat i - 7 / 2) * 2 - 30 \<rparr>) [0 ..< 8]"
    unfolding list_all_iff
  proof
    fix i assume "i \<in> set [0 ..< 8]"
    then have i: "i < 8" by simp
    show "position (leafs (layout 2 b) ! (0 * 128 + 15 * 8 + i)) = \<lparr> x_v = 75, y_v = - 5, z_v = (of_nat i - 7 / 2) * 2 \<rparr>
          \<and> position (leafs (layout 2 b) ! (1 * 128 + 15 * 8 + i)) = \<lparr> x_v = 75, y_v = - 5, z_v = (of_nat i - 7 / 2) * 2 - 60 \<rparr>
          \<and> hd (curveBetween (position (leafs (layout 2 b) ! (0 * 128 + 15 * 8 + i))) (position (leafs (layout 2 b) ! (1 * 128 + 15 * 8 + i)))) = position (leafs (layout 2 b) ! (0 * 128 + 15 * 8 + i))
          \<and> last (curveBetween (position (leafs (layout 2 b) ! (0 * 128 + 15 * 8 + i))) (position (leafs (layout 2 b) ! (1 * 128 + 15 * 8 + i)))) = position (leafs (layout 2 b) ! (1 * 128 + 15 * 8 + i))
          \<and> curveBetween (position (leafs (layout 2 b) ! (0 * 128 + 15 * 8 + i))) (position (leafs (layout 2 b) ! (1 * 128 + 15 * 8 + i))) ! 10 = \<lparr> x_v = 75, y_v = - 35 / 2, z_v = (of_nat i - 7 / 2) * 2 - 30 \<rparr>"
      by (simp only: hd_curveBetween last_curveBetween position_escape_leafs [OF i]
          escape_pair_middle simp_thms)
  qed
  from off two pairs each total expl ends show ?thesis
    by simp
qed

theorem escape_routes_witness:
  "escapeGeometry (layout 2 True) False 2 = Inr None
   \<and> (1 :: rat) < 2 \<and> escapeGeometry (layout 2 True) True 1 = Inr None"
  using escape_routes [of False 2 "layout 2 True" True] escape_routes [of True 1 "layout 2 True" True]
  by simp

text \<open>
  Claim C10. The escape-route builder is total on arbitrary topologies and cluster counts:
  it always returns a value and never raises. Each positional leaf lookup is guarded: an
  index pair contributes its sampled curve when both indices lie inside the leaf
  sequence and contributes nothing otherwise, so a leaf sequence that is too short gives a
  partial output, and one of at most 248 leafs gives \<open>null\<close>.
\<close>

theorem escape_total:
  "(\<exists>r. escapeGeometry lay active clusterCount = Inr r)
   \<and> (\<forall>e. escapeGeometry lay active clusterCount \<noteq> Inl e)
   \<and> pairLoop lay startIdxA startIdxB 0 points
       = Inr (points @ concat (map (\<lambda>i.
               if startIdxA + i < length (leafs lay) \<and> startIdxB + i < length (leafs lay)
               then curveSegments (curveBetween (position (leafs lay ! (startIdxA + i)))
                                                (position (leafs lay ! (startIdxB + i))))
               else []) [0 ..< 8]))
   \<and> escapeLoop lay clusterCount 0 []
       = Inr (concat (map (\<lambda>c. concat (map (\<lambda>i.
               if c * 128 + 120 + i < length (leafs lay) \<and> (c + 1) * 128 + 120 + i < length (leafs lay)
               then curveSegments (curveBetween (position (leafs lay ! (c * 128 + 120 + i)))
                                                (position (leafs lay ! ((c + 1) * 128 + 120 + i))))
               else []) [0 ..< 8])) [0 ..< nat \<lceil>clusterCount - 1\<rceil>]))
   \<and> (length (leafs lay) \<le> 248 \<longrightarrow> escapeGeometry lay active clusterCount = Inr None)"
proof -
  have r: "\<exists>r. escapeGeometry lay active clusterCount = Inr r"
    by (simp add: escapeGeometry_closed)
  have e: "\<forall>e. escapeGeometry lay active clusterCount \<noteq> Inl e"
    by (simp add: escapeGeometry_closed)
  have p: "pairLoop lay startIdxA startIdxB 0 points
       = Inr (points @ concat (map (\<lambda>i.
               if startIdxA + i < length (leafs lay) \<and> startIdxB + i < length (leafs lay)
               then curveSegments (curveBetween (position (leafs lay ! (startIdxA + i)))
                                                (position (leafs lay ! (startIdxB + i))))
               else []) [0 ..< 8]))"
    by (simp add: pairLoop_closed_aux pairSegments_def [abs_def] LEAFS_PER_GROUP_def)
  have l: "escapeLoop lay clusterCount 0 []
       = Inr (concat (map (\<lambda>c. concat (map (\<lambda>i.
               if c * 128 + 120 + i < length (leafs lay) \<and> (c + 1) * 128 + 120 + i < length (leafs lay)
               then curveSegments (curveBetween (position (leafs lay ! (c * 128 + 120 + i)))
                                                (position (leafs lay ! ((c + 1) * 128 + 120 + i))))
               else []) [0 ..< 8])) [0 ..< nat \<lceil>clusterCount - 1\<rceil>]))"
    by (simp only: escapeLoop_closed_aux pairSegments_def append_Nil)
  have s: "length (leafs lay) \<le> 248 \<longrightarrow> escapeGeometry lay active clusterCount = Inr None"
    by (simp add: escapeGeometry_closed escapePoints_short)
  from r e p l s show ?thesis
    by blast
qed

theorem escape_total_witness:
  "length (leafs (layout 1 False)) \<le> 248 \<and> escapeGeometry (layout 1 False) True 5 = Inr None
   \<and> (\<exists>pts. escapeGeometry (layout 2 False) True 3 = Inr (Some pts) \<and> segmentCount pts = 160)"
proof -
  have len: "length (leafs (layout 1 False)) \<le> 248"
    by (simp add: length_leafs_layout)
  have none: "escapeGeometry (layout 1 False) True 5 = Inr None"
    using escape_total [of "layout 1 False" True 5] len by blast
  have part: "\<exists>pts. escapeGeometry (layout 2 False) True 3 = Inr (Some pts) \<and> segmentCount pts = 160"
    using escapeGeometry_two_clusters [of 3 False] length_eight_curves
      [of "\<lambda>i. position (leafs (layout 2 False) ! (0 * 128 + 15 * 8 + i))"
          "\<lambda>i. position (leafs (layout 2 False) ! (1 * 128 + 15 * 8 + i))"]
    by (simp add: segmentCount_def)
  from len none part show ?thesis
    by simp
qed

end
